theory Spec2Isabelle
  imports Complex_Main "HOL-Library.Multiset" "HOL-Library.Product_Lexorder"
begin

section \<open>Multicore CPU scheduling simulator: the model\<close>

text \<open>
  Shallow embedding of the Python simulator. Simulated times and durations are Python
  floats in the source; they are modelled as exact reals, so rounding is not part of
  the model. The value \<open>float('inf')\<close>, which the non-preemptive policies return as their
  time quantum, is the constructor \<open>Unbounded\<close> of the type \<open>quantum\<close>.
\<close>

subsection \<open>core/process.py\<close>

datatype ProcessState = NEW | READY | RUNNING | WAITING | TERMINATED

datatype ProcessType = CPU_BOUND | IO_BOUND | MIXED

datatype quantum = Finite real | Unbounded

text \<open>\<open>min(time_slice, remaining_time)\<close> where the slice may be \<open>float('inf')\<close>.\<close>

fun min_slice :: "quantum \<Rightarrow> real \<Rightarrow> real" where
  "min_slice (Finite t) r = min t r"
| "min_slice Unbounded r = r"

record process =
  pid :: int
  arrival_time :: real
  burst_time :: real
  priority :: int
  remaining_time :: real
  process_type :: ProcessType
  state :: ProcessState
  cpu_affinity :: "nat option"
  start_time :: "real option"
  completion_time :: "real option"
  last_executed_time :: "real option"
  waiting_time :: real
  turnaround_time :: real
  response_time :: real
  executed_on_core :: "nat option"
  context_switches :: int
  time_quantum_used :: real

text \<open>\<open>Process.__init__\<close>.\<close>

definition Process :: "int \<Rightarrow> real \<Rightarrow> real \<Rightarrow> int \<Rightarrow> ProcessType \<Rightarrow> nat option \<Rightarrow> process" where
  "Process i arrival burst prio ptype affinity =
     \<lparr> pid = i, arrival_time = arrival, burst_time = burst, priority = prio,
       remaining_time = burst, process_type = ptype, state = NEW,
       cpu_affinity = affinity, start_time = None, completion_time = None,
       last_executed_time = None, waiting_time = 0, turnaround_time = 0,
       response_time = 0, executed_on_core = None, context_switches = 0,
       time_quantum_used = 0 \<rparr>"

text \<open>
  \<open>Process.execute(time_slice, current_time, core_id)\<close>: the four blocks of the method
  in order (first-execution bookkeeping, context-switch tracking, the execution itself,
  the state update). The result is the returned actual time and the mutated process.
\<close>

definition execute_start :: "real \<Rightarrow> process \<Rightarrow> process" where
  "execute_start current_time p =
     (if state p = NEW \<or> state p = READY
      then (if start_time p = None
            then p\<lparr>start_time := Some current_time,
                   response_time := current_time - arrival_time p\<rparr>
            else p)\<lparr>state := RUNNING\<rparr>
      else p)"

definition execute_track :: "nat \<Rightarrow> process \<Rightarrow> process" where
  "execute_track cid p =
     (if executed_on_core p \<noteq> None \<and> executed_on_core p \<noteq> Some cid
      then p\<lparr>context_switches := context_switches p + 1\<rparr>
      else p)\<lparr>executed_on_core := Some cid\<rparr>"

definition execute_finish :: "real \<Rightarrow> real \<Rightarrow> process \<Rightarrow> process" where
  "execute_finish current_time actual_time p =
     (if remaining_time p \<le> 0
      then p\<lparr>state := TERMINATED,
             completion_time := Some (current_time + actual_time),
             turnaround_time := (current_time + actual_time) - arrival_time p,
             waiting_time := ((current_time + actual_time) - arrival_time p) - burst_time p\<rparr>
      else p\<lparr>state := READY\<rparr>)"

definition execute :: "quantum \<Rightarrow> real \<Rightarrow> nat \<Rightarrow> process \<Rightarrow> real \<times> process" where
  "execute time_slice current_time cid p =
     (let p1 = execute_track cid (execute_start current_time p);
          actual_time = min_slice time_slice (remaining_time p1);
          p2 = p1\<lparr>remaining_time := remaining_time p1 - actual_time,
                  time_quantum_used := time_quantum_used p1 + actual_time,
                  last_executed_time := Some (current_time + actual_time)\<rparr>
      in (actual_time, execute_finish current_time actual_time p2))"

definition is_completed :: "process \<Rightarrow> bool" where
  "is_completed p \<longleftrightarrow> state p = TERMINATED"

subsection \<open>core/cpu.py\<close>

text \<open>
  Process objects live in a store, the list of the simulator's processes; a reference to a
  process object is its position in that list. Python compares process objects by
  identity (the class defines no \<open>__eq__\<close>), which is equality of references here.
\<close>

type_synonym ref = nat

type_synonym store = "process list"

record cpu_core =
  core_id :: nat
  current_process :: "ref option"
  total_busy_time :: real
  total_idle_time :: real
  processes_executed :: nat
  last_update_time :: real
  is_busy :: bool
  load_history :: "real list"
  current_load :: real

text \<open>\<open>CPUCore.__init__\<close>.\<close>

definition CPUCore :: "nat \<Rightarrow> cpu_core" where
  "CPUCore i =
     \<lparr> core_id = i, current_process = None, total_busy_time = 0, total_idle_time = 0,
       processes_executed = 0, last_update_time = 0, is_busy = False,
       load_history = [], current_load = 0 \<rparr>"

definition update_metrics :: "real \<Rightarrow> cpu_core \<Rightarrow> cpu_core" where
  "update_metrics current_time c =
     (let elapsed = current_time - last_update_time c
      in (if is_busy c then c\<lparr>total_busy_time := total_busy_time c + elapsed\<rparr>
          else c\<lparr>total_idle_time := total_idle_time c + elapsed\<rparr>)
         \<lparr>last_update_time := current_time\<rparr>)"

definition update_idle_time :: "real \<Rightarrow> cpu_core \<Rightarrow> cpu_core" where
  "update_idle_time current_time c =
     c\<lparr>total_idle_time := total_idle_time c + (current_time - last_update_time c),
       last_update_time := current_time\<rparr>"

definition assign_process :: "ref \<Rightarrow> real \<Rightarrow> store \<Rightarrow> cpu_core \<Rightarrow> cpu_core" where
  "assign_process r current_time st c =
     (let c1 = (case current_process c of
                  None \<Rightarrow> c
                | Some q \<Rightarrow> if \<not> is_completed (st ! q) then update_metrics current_time c else c)
      in c1\<lparr>current_process := Some r, is_busy := True, last_update_time := current_time,
            processes_executed := processes_executed c1 + 1\<rparr>)"

text \<open>
  \<open>execute_current_process\<close> returns the actual time (or \<open>None\<close> when the core has no
  process), the store with the executed process updated, and the core.
\<close>

definition execute_current_process ::
  "quantum \<Rightarrow> real \<Rightarrow> store \<Rightarrow> cpu_core \<Rightarrow> real option \<times> store \<times> cpu_core" where
  "execute_current_process time_slice current_time st c =
     (case current_process c of
        None \<Rightarrow> (None, st, update_idle_time current_time c)
      | Some r \<Rightarrow>
          (let (actual_time, p) = execute time_slice current_time (core_id c) (st ! r);
               c1 = c\<lparr>total_busy_time := total_busy_time c + actual_time,
                      last_update_time := current_time + actual_time\<rparr>;
               load = (if \<not> is_completed p then remaining_time p else 0);
               c2 = c1\<lparr>current_load := load, load_history := load_history c1 @ [load]\<rparr>;
               c3 = (if is_completed p then c2\<lparr>current_process := None, is_busy := False\<rparr>
                     else c2)
           in (Some actual_time, st[r := p], c3)))"

definition preempt_current_process :: "real \<Rightarrow> cpu_core \<Rightarrow> ref option \<times> cpu_core" where
  "preempt_current_process current_time c =
     (case current_process c of
        None \<Rightarrow> (None, c)
      | Some r \<Rightarrow>
          (Some r, (update_metrics current_time c)
                     \<lparr>current_process := None, is_busy := False, current_load := 0\<rparr>))"

definition is_idle :: "cpu_core \<Rightarrow> bool" where
  "is_idle c \<longleftrightarrow> \<not> is_busy c \<or> current_process c = None"

definition get_utilization :: "cpu_core \<Rightarrow> real \<Rightarrow> real" where
  "get_utilization c total_time =
     (if total_time = 0 then 0 else (total_busy_time c / total_time) * 100)"

definition get_load :: "cpu_core \<Rightarrow> real" where
  "get_load c = current_load c"

definition reset_core :: "cpu_core \<Rightarrow> cpu_core" where
  "reset_core c =
     c\<lparr>current_process := None, total_busy_time := 0, total_idle_time := 0,
       processes_executed := 0, last_update_time := 0, is_busy := False,
       current_load := 0, load_history := []\<rparr>"

subsection \<open>core/metrics.py\<close>

text \<open>
  \<open>statistics.stdev\<close> of the Python standard library: the square root of the sample
  variance, the sum of squared deviations from the mean divided by \<open>n - 1\<close>. The source
  calls it only on two or more values.
\<close>

definition mean :: "real list \<Rightarrow> real" where
  "mean xs = sum_list xs / real (length xs)"

definition variance :: "real list \<Rightarrow> real" where
  "variance xs = sum_list (map (\<lambda>x. (x - mean xs)\<^sup>2) xs) / (real (length xs) - 1)"

definition stdev :: "real list \<Rightarrow> real" where
  "stdev xs = sqrt (variance xs)"

text \<open>
  The \<open>PerformanceMetrics\<close> dataclass, without the algorithm's display name (a string
  that no property here reads).
\<close>

record performance_metrics =
  average_turnaround_time :: real
  average_waiting_time :: real
  average_response_time :: real
  cpu_utilization :: real
  throughput :: real
  metrics_context_switches :: int
  load_balance_score :: real
  metrics_num_cores :: nat
  num_processes :: nat
  total_simulation_time :: real

definition calculate_metrics ::
  "process list \<Rightarrow> cpu_core list \<Rightarrow> real \<Rightarrow> int \<Rightarrow> performance_metrics" where
  "calculate_metrics processes cores total_time switches =
     (let completed = filter is_completed processes
      in if completed = []
         then \<lparr> average_turnaround_time = 0, average_waiting_time = 0,
                average_response_time = 0, cpu_utilization = 0, throughput = 0,
                metrics_context_switches = switches, load_balance_score = 0,
                metrics_num_cores = length cores, num_processes = length processes,
                total_simulation_time = total_time \<rparr>
         else
           (let n = real (length completed);
                total_busy = sum_list (map total_busy_time cores);
                total_possible = total_time * real (length cores);
                core_utilizations = map (\<lambda>c. get_utilization c total_time) cores
            in \<lparr> average_turnaround_time = sum_list (map turnaround_time completed) / n,
                 average_waiting_time = sum_list (map waiting_time completed) / n,
                 average_response_time = sum_list (map response_time completed) / n,
                 cpu_utilization =
                   (if total_possible > 0 then total_busy / total_possible * 100 else 0),
                 throughput = (if total_time > 0 then n / total_time * 1000 else 0),
                 metrics_context_switches =
                   sum_list (map context_switches completed) + switches,
                 load_balance_score =
                   (if length core_utilizations > 1
                    then max 0 (1 - stdev core_utilizations / 100)
                    else 1),
                 metrics_num_cores = length cores, num_processes = length processes,
                 total_simulation_time = total_time \<rparr>))"

subsection \<open>algorithms: the concrete policies\<close>

text \<open>
  Every policy receives the ready queue as a list of references and reads the processes
  through the store. A method that mutates the ready queue or the policy object returns
  the new queue and the new policy state. The fields of \<open>BaseScheduler\<close> that no method
  called by the simulator reads (the display name, the policy's private ready list and
  its context-switch counter) are left out, and so is \<open>num_cores\<close> for the policies that
  never read it.
\<close>

datatype error = ValueError string | KeyError nat | ZeroDivisionError

text \<open>
  \<open>list.sort(key=f)\<close> computes the key of every element first, in list order, and then
  sorts stably by these keys. The key function may mutate the policy (the priority
  policy's does), so the keys are computed by a pass that threads the state.
\<close>

fun eval_keys :: "('s \<Rightarrow> 'a \<Rightarrow> 'k \<times> 's) \<Rightarrow> 's \<Rightarrow> 'a list \<Rightarrow> 'k list \<times> 's" where
  "eval_keys f s [] = ([], s)"
| "eval_keys f s (x # xs) =
     (let (k, s1) = f s x; (ks, s2) = eval_keys f s1 xs in (k # ks, s2))"

definition sort_by_keys :: "('k::linorder) list \<Rightarrow> 'a list \<Rightarrow> 'a list" where
  "sort_by_keys ks xs = map snd (sort_key fst (zip ks xs))"

paragraph \<open>algorithms/fcfs.py\<close>

definition fcfs_select_process :: "store \<Rightarrow> ref list \<Rightarrow> ref option \<times> ref list" where
  "fcfs_select_process st ready =
     (if ready = [] then (None, ready)
      else (let sorted_queue = sort_key (\<lambda>r. (arrival_time (st ! r), pid (st ! r))) ready
            in (Some (hd sorted_queue), sorted_queue)))"

paragraph \<open>algorithms/sjf.py\<close>

definition sjf_select_process :: "store \<Rightarrow> ref list \<Rightarrow> ref option \<times> ref list" where
  "sjf_select_process st ready =
     (if ready = [] then (None, ready)
      else (let sorted_queue =
                  sort_key (\<lambda>r. (remaining_time (st ! r), arrival_time (st ! r), pid (st ! r))) ready
            in (Some (hd sorted_queue), sorted_queue)))"

definition sjf_should_preempt :: "bool \<Rightarrow> store \<Rightarrow> ref \<Rightarrow> ref list \<Rightarrow> bool" where
  "sjf_should_preempt preemptive st cur ready =
     (if \<not> preemptive \<or> ready = [] then False
      else (let shortest_job = arg_min_list (\<lambda>r. remaining_time (st ! r)) ready
            in remaining_time (st ! shortest_job) < remaining_time (st ! cur)))"

paragraph \<open>algorithms/round_robin.py\<close>

record round_robin =
  time_quantum :: real
  rr_queue :: "ref list"
  process_quantum_remaining :: "int \<rightharpoonup> real"

definition RoundRobinScheduler_init :: "real \<Rightarrow> round_robin" where
  "RoundRobinScheduler_init q =
     \<lparr> time_quantum = q, rr_queue = [], process_quantum_remaining = Map.empty \<rparr>"

text \<open>The loop that appends the processes of the ready queue not yet in \<open>rr_queue\<close>.\<close>

fun rr_add_new :: "store \<Rightarrow> ref list \<Rightarrow> round_robin \<Rightarrow> round_robin" where
  "rr_add_new st [] s = s"
| "rr_add_new st (r # rs) s =
     rr_add_new st rs
       (if r \<in> set (rr_queue s) then s
        else s\<lparr>rr_queue := rr_queue s @ [r],
               process_quantum_remaining :=
                 (process_quantum_remaining s)(pid (st ! r) \<mapsto> time_quantum s)\<rparr>)"

definition rr_select_process :: "store \<Rightarrow> ref list \<Rightarrow> round_robin \<Rightarrow> ref option \<times> round_robin" where
  "rr_select_process st ready s =
     (let s1 = rr_add_new st ready s
      in (case rr_queue s1 of [] \<Rightarrow> (None, s1) | r # _ \<Rightarrow> (Some r, s1)))"

definition rr_on_process_completion :: "store \<Rightarrow> ref \<Rightarrow> round_robin \<Rightarrow> round_robin" where
  "rr_on_process_completion st r s =
     s\<lparr>rr_queue := remove1 r (rr_queue s),
       process_quantum_remaining := (process_quantum_remaining s)(pid (st ! r) := None)\<rparr>"

definition rotate_queue :: "store \<Rightarrow> ref \<Rightarrow> round_robin \<Rightarrow> round_robin" where
  "rotate_queue st r s =
     (if r \<in> set (rr_queue s)
      then (if \<not> is_completed (st ! r)
            then s\<lparr>rr_queue := remove1 r (rr_queue s) @ [r],
                   process_quantum_remaining :=
                     (process_quantum_remaining s)(pid (st ! r) \<mapsto> time_quantum s)\<rparr>
            else s\<lparr>rr_queue := remove1 r (rr_queue s)\<rparr>)
      else s)"

paragraph \<open>algorithms/priority.py\<close>

record priority_scheduler =
  prio_preemptive :: bool
  aging :: bool
  aging_factor :: real
  process_wait_times :: "int \<rightharpoonup> real"

definition PriorityScheduler_init :: "bool \<Rightarrow> bool \<Rightarrow> priority_scheduler" where
  "PriorityScheduler_init preemptive ag =
     \<lparr> prio_preemptive = preemptive, aging = ag, aging_factor = 1 / 10,
       process_wait_times = Map.empty \<rparr>"

definition get_effective_priority ::
  "store \<Rightarrow> real \<Rightarrow> priority_scheduler \<Rightarrow> ref \<Rightarrow> real \<times> priority_scheduler" where
  "get_effective_priority st current_time s r =
     (if \<not> aging s then (real_of_int (priority (st ! r)), s)
      else (let (since, s1) =
                  (case process_wait_times s (pid (st ! r)) of
                     None \<Rightarrow> (arrival_time (st ! r),
                              s\<lparr>process_wait_times :=
                                   (process_wait_times s)(pid (st ! r) \<mapsto> arrival_time (st ! r))\<rparr>)
                   | Some w \<Rightarrow> (w, s));
                wait_time = current_time - since;
                effective_priority = real_of_int (priority (st ! r)) - wait_time * aging_factor s
            in (max 0 effective_priority, s1)))"

fun apply_aging :: "store \<Rightarrow> ref list \<Rightarrow> real \<Rightarrow> priority_scheduler \<Rightarrow> priority_scheduler" where
  "apply_aging st [] current_time s = s"
| "apply_aging st (r # rs) current_time s =
     apply_aging st rs current_time
       (case process_wait_times s (pid (st ! r)) of
          None \<Rightarrow> s\<lparr>process_wait_times := (process_wait_times s)(pid (st ! r) \<mapsto> current_time)\<rparr>
        | Some _ \<Rightarrow> s)"

definition priority_sort_key ::
  "store \<Rightarrow> real \<Rightarrow> priority_scheduler \<Rightarrow> ref \<Rightarrow> (real \<times> real \<times> int) \<times> priority_scheduler" where
  "priority_sort_key st current_time s r =
     (let (e, s1) = get_effective_priority st current_time s r
      in ((e, arrival_time (st ! r), pid (st ! r)), s1))"

definition priority_select_process ::
  "store \<Rightarrow> ref list \<Rightarrow> real \<Rightarrow> priority_scheduler \<Rightarrow> ref option \<times> ref list \<times> priority_scheduler" where
  "priority_select_process st ready current_time s =
     (if ready = [] then (None, ready, s)
      else (let s1 = (if aging s then apply_aging st ready current_time s else s);
                (ks, s2) = eval_keys (priority_sort_key st current_time) s1 ready;
                sorted_queue = sort_by_keys ks ready
            in (Some (hd sorted_queue), sorted_queue, s2)))"

definition priority_should_preempt ::
  "store \<Rightarrow> ref \<Rightarrow> ref list \<Rightarrow> real \<Rightarrow> priority_scheduler \<Rightarrow> bool \<times> priority_scheduler" where
  "priority_should_preempt st cur ready current_time s =
     (if \<not> prio_preemptive s \<or> ready = [] then (False, s)
      else (let (current_priority, s1) = get_effective_priority st current_time s cur;
                (ks, s2) = eval_keys (get_effective_priority st current_time) s1 ready;
                highest_priority_process = snd (arg_min_list fst (zip ks ready));
                (highest_priority, s3) =
                  get_effective_priority st current_time s2 highest_priority_process
            in (highest_priority < current_priority, s3)))"

definition priority_on_process_arrival ::
  "store \<Rightarrow> ref \<Rightarrow> real \<Rightarrow> priority_scheduler \<Rightarrow> priority_scheduler" where
  "priority_on_process_arrival st r current_time s =
     s\<lparr>process_wait_times := (process_wait_times s)(pid (st ! r) \<mapsto> current_time)\<rparr>"

definition priority_on_process_completion ::
  "store \<Rightarrow> ref \<Rightarrow> priority_scheduler \<Rightarrow> priority_scheduler" where
  "priority_on_process_completion st r s =
     s\<lparr>process_wait_times := (process_wait_times s)(pid (st ! r) := None)\<rparr>"

paragraph \<open>algorithms/load_balancing.py\<close>

record load_balancing =
  rebalance_threshold :: real
  core_loads :: "nat \<rightharpoonup> real"
  process_assignments :: "int \<rightharpoonup> nat"

definition LoadBalancingScheduler_init :: "real \<Rightarrow> load_balancing" where
  "LoadBalancingScheduler_init threshold =
     \<lparr> rebalance_threshold = threshold, core_loads = Map.empty,
       process_assignments = Map.empty \<rparr>"

text \<open>\<open>self.core_loads.get(c, 0)\<close>.\<close>

definition load_of :: "(nat \<rightharpoonup> real) \<Rightarrow> nat \<Rightarrow> real" where
  "load_of loads c = (case loads c of None \<Rightarrow> 0 | Some l \<Rightarrow> l)"

text \<open>
  The candidates of \<open>_try_rebalance\<close>: the ready processes bound to a core whose recorded
  load exceeds the requesting core's load by more than the threshold fraction. Each
  candidate carries, besides the load difference, the core it is bound to, which the
  source reads again from \<open>process_assignments\<close> after choosing (the dictionary is not
  changed in between).
\<close>

fun rebalance_candidates ::
  "store \<Rightarrow> real \<Rightarrow> load_balancing \<Rightarrow> ref list \<Rightarrow> (ref \<times> real \<times> nat) list" where
  "rebalance_candidates st requesting_core_load s [] = []"
| "rebalance_candidates st requesting_core_load s (r # rs) =
     (case process_assignments s (pid (st ! r)) of
        None \<Rightarrow> rebalance_candidates st requesting_core_load s rs
      | Some assigned_core \<Rightarrow>
          (let assigned_core_load = load_of (core_loads s) assigned_core;
               load_difference = assigned_core_load - requesting_core_load
           in if load_difference > rebalance_threshold s * assigned_core_load
              then (r, load_difference, assigned_core)
                     # rebalance_candidates st requesting_core_load s rs
              else rebalance_candidates st requesting_core_load s rs))"

definition try_rebalance ::
  "store \<Rightarrow> cpu_core \<Rightarrow> ref list \<Rightarrow> load_balancing \<Rightarrow> ref option \<times> load_balancing" where
  "try_rebalance st requesting_core ready s =
     (let candidates = rebalance_candidates st (get_load requesting_core) s ready
      in if candidates = [] then (None, s)
         else (let (stolen_process, _, old_core) =
                     hd (sort_key (\<lambda>x. - fst (snd x)) candidates);
                   assignments = (process_assignments s)
                                   (pid (st ! stolen_process) \<mapsto> core_id requesting_core);
                   loads1 = (core_loads s)
                              (old_core \<mapsto> max 0 (load_of (core_loads s) old_core
                                                     - remaining_time (st ! stolen_process)));
                   loads2 = loads1
                              (core_id requesting_core \<mapsto>
                                 load_of loads1 (core_id requesting_core)
                                   + remaining_time (st ! stolen_process))
               in (Some stolen_process,
                   s\<lparr>process_assignments := assignments, core_loads := loads2\<rparr>)))"

definition lb_select_process ::
  "store \<Rightarrow> cpu_core \<Rightarrow> ref list \<Rightarrow> load_balancing \<Rightarrow> ref option \<times> load_balancing" where
  "lb_select_process st core ready s =
     (if ready = [] then (None, s)
      else (let assigned_processes =
                  filter (\<lambda>r. process_assignments s (pid (st ! r)) = Some (core_id core)) ready
            in if assigned_processes \<noteq> []
               then (Some (hd (sort_key (\<lambda>r. (remaining_time (st ! r), arrival_time (st ! r)))
                                 assigned_processes)), s)
               else (let unassigned_processes =
                           filter (\<lambda>r. process_assignments s (pid (st ! r)) = None) ready
                     in if unassigned_processes \<noteq> []
                        then (let selected =
                                    hd (sort_key (\<lambda>r. (remaining_time (st ! r), arrival_time (st ! r)))
                                          unassigned_processes)
                              in (Some selected,
                                  s\<lparr>process_assignments :=
                                       (process_assignments s)(pid (st ! selected) \<mapsto> core_id core),
                                     core_loads :=
                                       (core_loads s)
                                         (core_id core \<mapsto>
                                            load_of (core_loads s) (core_id core)
                                              + remaining_time (st ! selected))\<rparr>))
                        else try_rebalance st core ready s)))"

definition lb_on_process_completion :: "store \<Rightarrow> ref \<Rightarrow> load_balancing \<Rightarrow> load_balancing" where
  "lb_on_process_completion st r s =
     (case process_assignments s (pid (st ! r)) of
        None \<Rightarrow> s
      | Some assigned_core \<Rightarrow>
          s\<lparr>core_loads :=
              (core_loads s)
                (assigned_core \<mapsto>
                   max 0 (load_of (core_loads s) assigned_core - burst_time (st ! r))),
            process_assignments := (process_assignments s)(pid (st ! r) := None)\<rparr>)"

paragraph \<open>algorithms/work_stealing.py\<close>

text \<open>
  \<open>core_queues\<close> is the dictionary \<open>{i: [] for i in range(num_cores)}\<close>: the list of the
  local queues, indexed by core id; its length is the policy's \<open>num_cores\<close>. The
  policy shuffles with Python's global random generator: the generator is the stream
  \<open>random_source\<close> of raw draws together with the number of draws taken so far.
\<close>

record work_stealing =
  steal_attempts :: nat
  core_queues :: "ref list list"
  process_core_map :: "int \<rightharpoonup> nat"
  global_queue :: "ref list"
  random_source :: "nat \<Rightarrow> nat"
  draws_taken :: nat

definition WorkStealingScheduler_init :: "nat \<Rightarrow> nat \<Rightarrow> (nat \<Rightarrow> nat) \<Rightarrow> work_stealing" where
  "WorkStealingScheduler_init n attempts rnd =
     \<lparr> steal_attempts = attempts, core_queues = replicate n [],
       process_core_map = Map.empty, global_queue = [], random_source = rnd,
       draws_taken = 0 \<rparr>"

text \<open>
  The \<open>while self.global_queue\<close> loop of \<open>_distribute_new_processes\<close>, over the content
  of the global queue. \<open>min\<close> over the keys of an empty dictionary raises ValueError.
\<close>

fun distribute :: "store \<Rightarrow> ref list \<Rightarrow> work_stealing \<Rightarrow> error option \<times> work_stealing" where
  "distribute st [] s = (None, s\<lparr>global_queue := []\<rparr>)"
| "distribute st (r # rs) s =
     (if core_queues s = []
      then (Some (ValueError ''min() arg is an empty sequence''), s\<lparr>global_queue := r # rs\<rparr>)
      else (let min_queue_core =
                  arg_min_list (\<lambda>c. length (core_queues s ! c)) [0..<length (core_queues s)]
            in distribute st rs
                 (s\<lparr>core_queues :=
                      (core_queues s)[min_queue_core := core_queues s ! min_queue_core @ [r]],
                    process_core_map :=
                      (process_core_map s)(pid (st ! r) \<mapsto> min_queue_core)\<rparr>)))"

definition distribute_new_processes ::
  "store \<Rightarrow> ref list \<Rightarrow> work_stealing \<Rightarrow> error option \<times> work_stealing" where
  "distribute_new_processes st ready s =
     (let new_processes =
            filter (\<lambda>r. process_core_map s (pid (st ! r)) = None \<and> r \<notin> set (global_queue s)) ready
      in distribute st (global_queue s @ new_processes) s)"

text \<open>
  \<open>random.shuffle\<close>: for \<open>i\<close> from the last index down to 1, swap the elements at \<open>i\<close> and
  at a random \<open>j \<le> i\<close>. The argument \<open>k\<close> counts the positions still to visit.
\<close>

fun shuffle :: "(nat \<Rightarrow> nat) \<Rightarrow> nat \<Rightarrow> nat \<Rightarrow> 'a list \<Rightarrow> 'a list" where
  "shuffle rnd taken 0 xs = xs"
| "shuffle rnd taken (Suc k) xs =
     (if k = 0 then xs
      else (let j = rnd taken mod (Suc k)
            in shuffle rnd (Suc taken) k (xs[k := xs ! j, j := xs ! k])))"

text \<open>The loop of \<open>_steal_work\<close> that looks for the sampled core with the longest queue.\<close>

fun best_victim :: "ref list list \<Rightarrow> nat list \<Rightarrow> nat option \<times> nat \<Rightarrow> nat option \<times> nat" where
  "best_victim queues [] acc = acc"
| "best_victim queues (victim_id # vs) (best, max_queue_size) =
     (let queue_size = length (queues ! victim_id)
      in if queue_size > max_queue_size
         then best_victim queues vs (Some victim_id, queue_size)
         else best_victim queues vs (best, max_queue_size))"

definition steal_work :: "store \<Rightarrow> nat \<Rightarrow> work_stealing \<Rightarrow> ref option \<times> work_stealing" where
  "steal_work st thief_core_id s =
     (let potential_victims = filter (\<lambda>i. i \<noteq> thief_core_id) [0..<length (core_queues s)]
      in if potential_victims = [] then (None, s)
         else (let shuffled = shuffle (random_source s) (draws_taken s)
                                (length potential_victims) potential_victims;
                   s1 = s\<lparr>draws_taken := draws_taken s + (length potential_victims - 1)\<rparr>;
                   cores_to_check = take (steal_attempts s) shuffled
               in (case fst (best_victim (core_queues s1) cores_to_check (None, 0)) of
                     None \<Rightarrow> (None, s1)
                   | Some victim \<Rightarrow>
                       if length (core_queues s1 ! victim) \<ge> 2
                       then (let stolen_process = last (core_queues s1 ! victim)
                             in (Some stolen_process,
                                 s1\<lparr>core_queues :=
                                       (core_queues s1)[victim := butlast (core_queues s1 ! victim)],
                                     process_core_map :=
                                       (process_core_map s1)
                                         (pid (st ! stolen_process) \<mapsto> thief_core_id)\<rparr>))
                       else (None, s1))))"

definition ws_select_process ::
  "store \<Rightarrow> cpu_core \<Rightarrow> ref list \<Rightarrow> work_stealing \<Rightarrow> (error + ref option) \<times> work_stealing" where
  "ws_select_process st core ready s =
     (case distribute_new_processes st ready s of
        (Some e, s1) \<Rightarrow> (Inl e, s1)
      | (None, s1) \<Rightarrow>
          if core_id core \<ge> length (core_queues s1) then (Inl (KeyError (core_id core)), s1)
          else (case core_queues s1 ! core_id core of
                  r # rest \<Rightarrow> (Inr (Some r), s1\<lparr>core_queues := (core_queues s1)[core_id core := rest]\<rparr>)
                | [] \<Rightarrow> (case steal_work st (core_id core) s1 of (res, s2) \<Rightarrow> (Inr res, s2))))"

text \<open>\<open>for queue in self.core_queues.values(): if process in queue: queue.remove(process)\<close>.\<close>

definition ws_on_process_completion :: "store \<Rightarrow> ref \<Rightarrow> work_stealing \<Rightarrow> work_stealing" where
  "ws_on_process_completion st r s =
     s\<lparr>process_core_map := (process_core_map s)(pid (st ! r) := None),
       core_queues := map (remove1 r) (core_queues s)\<rparr>"

definition ws_reset :: "work_stealing \<Rightarrow> work_stealing" where
  "ws_reset s =
     s\<lparr>core_queues := replicate (length (core_queues s)) [],
       process_core_map := Map.empty, global_queue := []\<rparr>"

paragraph \<open>The policy interface\<close>

text \<open>
  A concrete policy object, by class. \<open>SJFScheduler\<close> carries its \<open>preemptive\<close> flag;
  \<open>FCFSScheduler\<close> has no state that a method reads.
\<close>

datatype policy =
    FCFSScheduler
  | SJFScheduler bool
  | RoundRobinScheduler round_robin
  | PriorityScheduler priority_scheduler
  | LoadBalancingScheduler load_balancing
  | WorkStealingScheduler work_stealing

text \<open>
  \<open>select_process(core, ready_queue, current_time)\<close>: the result (a selection, none, or the
  exception raised), the ready queue after the call and the policy after the call.
\<close>

fun policy_select_process ::
  "store \<Rightarrow> cpu_core \<Rightarrow> ref list \<Rightarrow> real \<Rightarrow> policy \<Rightarrow> (error + ref option) \<times> ref list \<times> policy" where
  "policy_select_process st core ready now FCFSScheduler =
     (case fcfs_select_process st ready of (res, ready1) \<Rightarrow> (Inr res, ready1, FCFSScheduler))"
| "policy_select_process st core ready now (SJFScheduler b) =
     (case sjf_select_process st ready of (res, ready1) \<Rightarrow> (Inr res, ready1, SJFScheduler b))"
| "policy_select_process st core ready now (RoundRobinScheduler s) =
     (case rr_select_process st ready s of (res, s1) \<Rightarrow> (Inr res, ready, RoundRobinScheduler s1))"
| "policy_select_process st core ready now (PriorityScheduler s) =
     (case priority_select_process st ready now s of
        (res, ready1, s1) \<Rightarrow> (Inr res, ready1, PriorityScheduler s1))"
| "policy_select_process st core ready now (LoadBalancingScheduler s) =
     (case lb_select_process st core ready s of
        (res, s1) \<Rightarrow> (Inr res, ready, LoadBalancingScheduler s1))"
| "policy_select_process st core ready now (WorkStealingScheduler s) =
     (case ws_select_process st core ready s of
        (res, s1) \<Rightarrow> (res, ready, WorkStealingScheduler s1))"

fun policy_is_preemptive :: "policy \<Rightarrow> bool" where
  "policy_is_preemptive FCFSScheduler = False"
| "policy_is_preemptive (SJFScheduler b) = b"
| "policy_is_preemptive (RoundRobinScheduler s) = True"
| "policy_is_preemptive (PriorityScheduler s) = prio_preemptive s"
| "policy_is_preemptive (LoadBalancingScheduler s) = True"
| "policy_is_preemptive (WorkStealingScheduler s) = False"

fun policy_get_time_quantum :: "policy \<Rightarrow> quantum" where
  "policy_get_time_quantum FCFSScheduler = Unbounded"
| "policy_get_time_quantum (SJFScheduler b) = (if b then Finite 1 else Unbounded)"
| "policy_get_time_quantum (RoundRobinScheduler s) = Finite (time_quantum s)"
| "policy_get_time_quantum (PriorityScheduler s) =
     (if prio_preemptive s then Finite 1 else Unbounded)"
| "policy_get_time_quantum (LoadBalancingScheduler s) = Finite 5"
| "policy_get_time_quantum (WorkStealingScheduler s) = Finite 10"

fun policy_should_preempt ::
  "store \<Rightarrow> ref \<Rightarrow> ref list \<Rightarrow> real \<Rightarrow> policy \<Rightarrow> bool \<times> policy" where
  "policy_should_preempt st cur ready now (SJFScheduler b) =
     (sjf_should_preempt b st cur ready, SJFScheduler b)"
| "policy_should_preempt st cur ready now (PriorityScheduler s) =
     (case priority_should_preempt st cur ready now s of
        (res, s1) \<Rightarrow> (res, PriorityScheduler s1))"
| "policy_should_preempt st cur ready now pol = (False, pol)"

fun policy_on_process_arrival :: "store \<Rightarrow> ref \<Rightarrow> real \<Rightarrow> policy \<Rightarrow> policy" where
  "policy_on_process_arrival st r now (PriorityScheduler s) =
     PriorityScheduler (priority_on_process_arrival st r now s)"
| "policy_on_process_arrival st r now pol = pol"

fun policy_on_process_completion :: "store \<Rightarrow> ref \<Rightarrow> real \<Rightarrow> policy \<Rightarrow> policy" where
  "policy_on_process_completion st r now (RoundRobinScheduler s) =
     RoundRobinScheduler (rr_on_process_completion st r s)"
| "policy_on_process_completion st r now (PriorityScheduler s) =
     PriorityScheduler (priority_on_process_completion st r s)"
| "policy_on_process_completion st r now (LoadBalancingScheduler s) =
     LoadBalancingScheduler (lb_on_process_completion st r s)"
| "policy_on_process_completion st r now (WorkStealingScheduler s) =
     WorkStealingScheduler (ws_on_process_completion st r s)"
| "policy_on_process_completion st r now pol = pol"

fun policy_reset :: "policy \<Rightarrow> policy" where
  "policy_reset (RoundRobinScheduler s) =
     RoundRobinScheduler (s\<lparr>rr_queue := [], process_quantum_remaining := Map.empty\<rparr>)"
| "policy_reset (PriorityScheduler s) =
     PriorityScheduler (s\<lparr>process_wait_times := Map.empty\<rparr>)"
| "policy_reset (LoadBalancingScheduler s) =
     LoadBalancingScheduler (s\<lparr>core_loads := Map.empty, process_assignments := Map.empty\<rparr>)"
| "policy_reset (WorkStealingScheduler s) = WorkStealingScheduler (ws_reset s)"
| "policy_reset pol = pol"

paragraph \<open>algorithms/adaptive_scheduler.py\<close>

datatype SystemState = LOW_LOAD | MEDIUM_LOAD | HIGH_LOAD

datatype WorkloadCharacteristic =
  CPU_INTENSIVE | IO_INTENSIVE | MIXED_WORKLOAD | SHORT_JOBS | LONG_JOBS

text \<open>
  The keys of the dictionary \<open>self.schedulers\<close>: the strings \<open>'fcfs'\<close>, \<open>'sjf'\<close>,
  \<open>'round_robin'\<close>, \<open>'priority'\<close>, \<open>'load_balancing'\<close> and \<open>'work_stealing'\<close>.
\<close>

datatype algorithm = FCFS | SJF | ROUND_ROBIN | PRIORITY | LOAD_BALANCING | WORK_STEALING

text \<open>\<open>queue_length / self.num_cores\<close> raises ZeroDivisionError for a zero core count.\<close>

definition analyze_system_state :: "nat \<Rightarrow> ref list \<Rightarrow> error + SystemState" where
  "analyze_system_state n ready =
     (if n = 0 then Inl ZeroDivisionError
      else (let load_ratio = real (length ready) / real n
            in Inr (if load_ratio < 1 then LOW_LOAD
                    else if load_ratio < 3 then MEDIUM_LOAD
                    else HIGH_LOAD)))"

definition analyze_workload :: "store \<Rightarrow> ref list \<Rightarrow> WorkloadCharacteristic" where
  "analyze_workload st ready =
     (if ready = [] then MIXED_WORKLOAD
      else (let cpu_intensive_count =
                  length (filter (\<lambda>r. process_type (st ! r) = CPU_BOUND) ready);
                io_intensive_count =
                  length (filter (\<lambda>r. process_type (st ! r) = IO_BOUND) ready);
                cpu_ratio = real cpu_intensive_count / real (length ready);
                io_ratio = real io_intensive_count / real (length ready);
                avg_burst = sum_list (map (\<lambda>r. remaining_time (st ! r)) ready)
                              / real (length ready)
            in if cpu_ratio > 6 / 10 then CPU_INTENSIVE
               else if io_ratio > 6 / 10 then IO_INTENSIVE
               else if avg_burst < 10 then SHORT_JOBS
               else if avg_burst > 50 then LONG_JOBS
               else MIXED_WORKLOAD))"

definition select_best_algorithm :: "SystemState \<Rightarrow> WorkloadCharacteristic \<Rightarrow> algorithm" where
  "select_best_algorithm system_state workload =
     (if system_state = HIGH_LOAD
      then (if workload = CPU_INTENSIVE then LOAD_BALANCING
            else if workload = LONG_JOBS then ROUND_ROBIN
            else LOAD_BALANCING)
      else if system_state = MEDIUM_LOAD
      then (if workload = SHORT_JOBS then SJF
            else if workload = IO_INTENSIVE then PRIORITY
            else WORK_STEALING)
      else (if workload = SHORT_JOBS then SJF
            else if workload = MIXED_WORKLOAD then WORK_STEALING
            else FCFS))"

record adaptive =
  adaptive_num_cores :: nat
  adaptation_interval :: real
  last_adaptation_time :: real
  schedulers :: "algorithm \<Rightarrow> policy"
  current_scheduler_name :: algorithm
  system_state_history :: "SystemState list"
  workload_history :: "WorkloadCharacteristic list"
  algorithm_usage :: "algorithm \<Rightarrow> nat"
  algorithm_performance :: "algorithm \<Rightarrow> real list"
  recent_processes :: "ref list"
  recent_turnaround_times :: "real list"

text \<open>\<open>AdaptiveScheduler.__init__\<close>; \<open>rnd\<close> is the random generator the work-stealing policy draws from.\<close>

definition AdaptiveScheduler_init :: "nat \<Rightarrow> real \<Rightarrow> (nat \<Rightarrow> nat) \<Rightarrow> adaptive" where
  "AdaptiveScheduler_init n interval rnd =
     \<lparr> adaptive_num_cores = n, adaptation_interval = interval, last_adaptation_time = 0,
       schedulers =
         (\<lambda>a. case a of
                 FCFS \<Rightarrow> FCFSScheduler
               | SJF \<Rightarrow> SJFScheduler True
               | ROUND_ROBIN \<Rightarrow> RoundRobinScheduler (RoundRobinScheduler_init 4)
               | PRIORITY \<Rightarrow> PriorityScheduler (PriorityScheduler_init True True)
               | LOAD_BALANCING \<Rightarrow> LoadBalancingScheduler (LoadBalancingScheduler_init (3 / 10))
               | WORK_STEALING \<Rightarrow> WorkStealingScheduler (WorkStealingScheduler_init n 3 rnd)),
       current_scheduler_name = LOAD_BALANCING,
       system_state_history = [], workload_history = [],
       algorithm_usage = (\<lambda>a. 0), algorithm_performance = (\<lambda>a. []),
       recent_processes = [], recent_turnaround_times = [] \<rparr>"

text \<open>
  \<open>_adapt_scheduler\<close>. \<open>self.current_scheduler\<close> always aliases
  \<open>self.schedulers[self.current_scheduler_name]\<close>, so the model keeps the name only;
  \<open>_transfer_scheduler_state\<close> does nothing.
\<close>

definition adapt_scheduler :: "store \<Rightarrow> ref list \<Rightarrow> adaptive \<Rightarrow> error + adaptive" where
  "adapt_scheduler st ready s =
     (case analyze_system_state (adaptive_num_cores s) ready of
        Inl e \<Rightarrow> Inl e
      | Inr system_state \<Rightarrow>
          (let workload_char = analyze_workload st ready;
               new_scheduler_name = select_best_algorithm system_state workload_char;
               s1 = s\<lparr>system_state_history := system_state_history s @ [system_state],
                      workload_history := workload_history s @ [workload_char]\<rparr>;
               s2 = (if new_scheduler_name \<noteq> current_scheduler_name s1
                     then s1\<lparr>current_scheduler_name := new_scheduler_name\<rparr>
                     else s1)
           in Inr (s2\<lparr>algorithm_usage :=
                        (algorithm_usage s2)
                          (current_scheduler_name s2 :=
                             algorithm_usage s2 (current_scheduler_name s2) + 1)\<rparr>)))"

definition adaptive_select_process ::
  "store \<Rightarrow> cpu_core \<Rightarrow> ref list \<Rightarrow> real \<Rightarrow> adaptive \<Rightarrow> (error + ref option) \<times> ref list \<times> adaptive" where
  "adaptive_select_process st core ready now s =
     (case (if now - last_adaptation_time s \<ge> adaptation_interval s
            then (case adapt_scheduler st ready s of
                    Inl e \<Rightarrow> Inl e
                  | Inr s1 \<Rightarrow> Inr (s1\<lparr>last_adaptation_time := now\<rparr>))
            else Inr s) of
        Inl e \<Rightarrow> (Inl e, ready, s)
      | Inr s1 \<Rightarrow>
          (case policy_select_process st core ready now (schedulers s1 (current_scheduler_name s1)) of
             (res, ready1, pol) \<Rightarrow>
               (res, ready1,
                s1\<lparr>schedulers := (schedulers s1)(current_scheduler_name s1 := pol)\<rparr>)))"

definition adaptive_on_process_completion ::
  "store \<Rightarrow> ref \<Rightarrow> real \<Rightarrow> adaptive \<Rightarrow> adaptive" where
  "adaptive_on_process_completion st r now s =
     (let recent1 = recent_processes s @ [r];
          times1 = recent_turnaround_times s @ [turnaround_time (st ! r)];
          s1 = (if length recent1 > 20
                then s\<lparr>recent_processes := tl recent1, recent_turnaround_times := tl times1\<rparr>
                else s\<lparr>recent_processes := recent1, recent_turnaround_times := times1\<rparr>);
          name = current_scheduler_name s1
      in s1\<lparr>algorithm_performance :=
               (algorithm_performance s1)
                 (name := algorithm_performance s1 name @ [turnaround_time (st ! r)]),
             schedulers :=
               (schedulers s1)
                 (name := policy_on_process_completion st r now (schedulers s1 name))\<rparr>)"

definition adaptive_reset :: "adaptive \<Rightarrow> adaptive" where
  "adaptive_reset s =
     s\<lparr>schedulers := (\<lambda>a. policy_reset (schedulers s a)),
       current_scheduler_name := LOAD_BALANCING, last_adaptation_time := 0,
       system_state_history := [], workload_history := [],
       algorithm_usage := (\<lambda>a. 0), algorithm_performance := (\<lambda>a. []),
       recent_processes := [], recent_turnaround_times := []\<rparr>"

paragraph \<open>The scheduler bound to the simulator\<close>

datatype scheduler = Plain policy | AdaptiveScheduler adaptive

fun select_process ::
  "store \<Rightarrow> cpu_core \<Rightarrow> ref list \<Rightarrow> real \<Rightarrow> scheduler \<Rightarrow> (error + ref option) \<times> ref list \<times> scheduler" where
  "select_process st core ready now (Plain pol) =
     (case policy_select_process st core ready now pol of
        (res, ready1, pol1) \<Rightarrow> (res, ready1, Plain pol1))"
| "select_process st core ready now (AdaptiveScheduler s) =
     (case adaptive_select_process st core ready now s of
        (res, ready1, s1) \<Rightarrow> (res, ready1, AdaptiveScheduler s1))"

fun is_preemptive :: "scheduler \<Rightarrow> bool" where
  "is_preemptive (Plain pol) = policy_is_preemptive pol"
| "is_preemptive (AdaptiveScheduler s) =
     policy_is_preemptive (schedulers s (current_scheduler_name s))"

fun get_time_quantum :: "scheduler \<Rightarrow> quantum" where
  "get_time_quantum (Plain pol) = policy_get_time_quantum pol"
| "get_time_quantum (AdaptiveScheduler s) =
     policy_get_time_quantum (schedulers s (current_scheduler_name s))"

fun should_preempt :: "store \<Rightarrow> ref \<Rightarrow> ref list \<Rightarrow> real \<Rightarrow> scheduler \<Rightarrow> bool \<times> scheduler" where
  "should_preempt st cur ready now (Plain pol) =
     (case policy_should_preempt st cur ready now pol of (res, pol1) \<Rightarrow> (res, Plain pol1))"
| "should_preempt st cur ready now (AdaptiveScheduler s) =
     (case policy_should_preempt st cur ready now (schedulers s (current_scheduler_name s)) of
        (res, pol1) \<Rightarrow>
          (res, AdaptiveScheduler
                  (s\<lparr>schedulers := (schedulers s)(current_scheduler_name s := pol1)\<rparr>)))"

fun on_process_arrival :: "store \<Rightarrow> ref \<Rightarrow> real \<Rightarrow> scheduler \<Rightarrow> scheduler" where
  "on_process_arrival st r now (Plain pol) = Plain (policy_on_process_arrival st r now pol)"
| "on_process_arrival st r now (AdaptiveScheduler s) =
     AdaptiveScheduler
       (s\<lparr>schedulers :=
            (schedulers s)
              (current_scheduler_name s :=
                 policy_on_process_arrival st r now (schedulers s (current_scheduler_name s)))\<rparr>)"

fun on_process_completion :: "store \<Rightarrow> ref \<Rightarrow> real \<Rightarrow> scheduler \<Rightarrow> scheduler" where
  "on_process_completion st r now (Plain pol) = Plain (policy_on_process_completion st r now pol)"
| "on_process_completion st r now (AdaptiveScheduler s) =
     AdaptiveScheduler (adaptive_on_process_completion st r now s)"

text \<open>
  \<open>hasattr(self.scheduler, 'rotate_queue')\<close> holds for a Round Robin scheduler only (the
  adaptive scheduler has no such method, whatever its current policy): the rotation
  the simulator asks for after a preemption.
\<close>

fun rotate_if_supported :: "store \<Rightarrow> ref \<Rightarrow> scheduler \<Rightarrow> scheduler" where
  "rotate_if_supported st r (Plain (RoundRobinScheduler s)) =
     Plain (RoundRobinScheduler (rotate_queue st r s))"
| "rotate_if_supported st r sch = sch"

fun reset_scheduler :: "scheduler \<Rightarrow> scheduler" where
  "reset_scheduler (Plain pol) = Plain (policy_reset pol)"
| "reset_scheduler (AdaptiveScheduler s) = AdaptiveScheduler (adaptive_reset s)"

subsection \<open>scheduler_simulator.py\<close>

text \<open>
  The simulator object. \<open>all_processes\<close> is the store. The \<open>verbose\<close> flag and the
  printing it controls are left out.
\<close>

record simulator =
  num_cores :: nat
  cores :: "cpu_core list"
  all_processes :: store
  ready_queue :: "ref list"
  completed_processes :: "ref list"
  scheduler :: "scheduler option"
  current_time :: real
  total_context_switches :: int
  metrics :: "performance_metrics option"

text \<open>\<open>MulticoreSchedulerSimulator.__init__\<close>, \<open>set_scheduler\<close> and \<open>add_process\<close>.\<close>

definition MulticoreSchedulerSimulator :: "nat \<Rightarrow> simulator" where
  "MulticoreSchedulerSimulator n =
     \<lparr> num_cores = n, cores = map CPUCore [0..<n], all_processes = [], ready_queue = [],
       completed_processes = [], scheduler = None, current_time = 0,
       total_context_switches = 0, metrics = None \<rparr>"

definition set_scheduler :: "scheduler \<Rightarrow> simulator \<Rightarrow> simulator" where
  "set_scheduler sch sim = sim\<lparr>scheduler := Some sch\<rparr>"

definition add_process :: "process \<Rightarrow> simulator \<Rightarrow> simulator" where
  "add_process p sim = sim\<lparr>all_processes := all_processes sim @ [p]\<rparr>"

definition reset_process :: "process \<Rightarrow> process" where
  "reset_process p =
     p\<lparr>state := NEW, remaining_time := burst_time p, start_time := None,
       completion_time := None, waiting_time := 0, turnaround_time := 0,
       response_time := 0\<rparr>"

definition reset_simulation :: "simulator \<Rightarrow> simulator" where
  "reset_simulation sim =
     sim\<lparr>current_time := 0, ready_queue := [], completed_processes := [],
         total_context_switches := 0, cores := map reset_core (cores sim),
         all_processes := map reset_process (all_processes sim),
         scheduler := map_option reset_scheduler (scheduler sim)\<rparr>"

text \<open>
  The helpers of the main loop take the scheduler object beside the simulator and return
  both; \<open>run_simulation\<close> puts the scheduler back into the simulator.

  The inner \<open>while\<close> loop that admits the arrived processes, from \<open>process_index\<close> on.
\<close>

function admit_arrivals :: "nat \<Rightarrow> scheduler \<Rightarrow> simulator \<Rightarrow> nat \<times> scheduler \<times> simulator" where
  "admit_arrivals process_index sch sim =
     (if process_index < length (all_processes sim)
         \<and> arrival_time (all_processes sim ! process_index) \<le> current_time sim
      then (let st = (all_processes sim)
                       [process_index := (all_processes sim ! process_index)\<lparr>state := READY\<rparr>]
            in admit_arrivals (process_index + 1)
                 (on_process_arrival st process_index (current_time sim) sch)
                 (sim\<lparr>all_processes := st, ready_queue := ready_queue sim @ [process_index]\<rparr>))
      else (process_index, sch, sim))"
  by pat_completeness auto
termination
  by (relation "measure (\<lambda>(i, sch, sim). length (all_processes sim) - i)") auto

text \<open>\<open>_assign_processes_to_cores\<close>: the body of the loop for the core at position \<open>i\<close>.\<close>

definition assign_core :: "nat \<Rightarrow> scheduler \<Rightarrow> simulator \<Rightarrow> error option \<times> scheduler \<times> simulator" where
  "assign_core i sch sim =
     (let core = cores sim ! i
      in if is_idle core \<and> ready_queue sim \<noteq> []
         then (case select_process (all_processes sim) core (ready_queue sim) (current_time sim) sch of
                 (Inl e, ready1, sch1) \<Rightarrow> (Some e, sch1, sim\<lparr>ready_queue := ready1\<rparr>)
               | (Inr None, ready1, sch1) \<Rightarrow> (None, sch1, sim\<lparr>ready_queue := ready1\<rparr>)
               | (Inr (Some r), ready1, sch1) \<Rightarrow>
                   (None, sch1,
                    sim\<lparr>ready_queue := remove1 r ready1,
                        cores := (cores sim)
                                   [i := assign_process r (current_time sim) (all_processes sim) core],
                        total_context_switches := total_context_switches sim + 1\<rparr>))
         else (None, sch, sim))"

fun assign_processes_to_cores ::
  "nat list \<Rightarrow> scheduler \<Rightarrow> simulator \<Rightarrow> error option \<times> scheduler \<times> simulator" where
  "assign_processes_to_cores [] sch sim = (None, sch, sim)"
| "assign_processes_to_cores (i # rest) sch sim =
     (case assign_core i sch sim of
        (Some e, sch1, sim1) \<Rightarrow> (Some e, sch1, sim1)
      | (None, sch1, sim1) \<Rightarrow> assign_processes_to_cores rest sch1 sim1)"

text \<open>
  \<open>_execute_all_cores\<close>: the body of the loop for the core at position \<open>i\<close>. The running
  minimum \<open>min_time_slice\<close> starts as \<open>float('inf')\<close>, here \<open>None\<close>.
\<close>

definition min_opt :: "real option \<Rightarrow> real \<Rightarrow> real" where
  "min_opt m a = (case m of None \<Rightarrow> a | Some b \<Rightarrow> min b a)"

definition execute_core ::
  "quantum \<Rightarrow> nat \<Rightarrow> real option \<times> scheduler \<times> simulator \<Rightarrow> real option \<times> scheduler \<times> simulator" where
  "execute_core tq i acc =
     (case acc of (min_time_slice, sch, sim) \<Rightarrow>
      (let core = cores sim ! i
       in if is_idle core then acc
          else (case current_process core of
                  None \<Rightarrow> acc
                | Some cur \<Rightarrow>
                   (case should_preempt (all_processes sim) cur (ready_queue sim) (current_time sim) sch of
                      (True, sch1) \<Rightarrow>
                        (case preempt_current_process (current_time sim) core of
                           (preempted, core1) \<Rightarrow>
                             (min_time_slice, sch1,
                              sim\<lparr>cores := (cores sim)[i := core1],
                                  ready_queue :=
                                    (case preempted of
                                       None \<Rightarrow> ready_queue sim
                                     | Some q \<Rightarrow>
                                         if \<not> is_completed (all_processes sim ! q)
                                         then ready_queue sim @ [q] else ready_queue sim)\<rparr>))
                    | (False, sch1) \<Rightarrow>
                        (case execute_current_process tq (current_time sim) (all_processes sim) core of
                           (None, st1, core1) \<Rightarrow>
                             (min_time_slice, sch1,
                              sim\<lparr>all_processes := st1, cores := (cores sim)[i := core1]\<rparr>)
                         | (Some actual_time, st1, core1) \<Rightarrow>
                             (let m = Some (min_opt min_time_slice actual_time);
                                  sim1 = sim\<lparr>all_processes := st1, cores := (cores sim)[i := core1]\<rparr>
                              in if is_completed (st1 ! cur)
                                 then (m, on_process_completion st1 cur (current_time sim + actual_time) sch1,
                                       sim1\<lparr>completed_processes := completed_processes sim1 @ [cur]\<rparr>)
                                 else if is_preemptive sch1
                                 then (case preempt_current_process (current_time sim + actual_time) core1 of
                                         (None, core2) \<Rightarrow>
                                           (m, sch1, sim1\<lparr>cores := (cores sim1)[i := core2]\<rparr>)
                                       | (Some q, core2) \<Rightarrow>
                                           (m, rotate_if_supported st1 q sch1,
                                            sim1\<lparr>cores := (cores sim1)[i := core2],
                                                 ready_queue := ready_queue sim1 @ [q]\<rparr>))
                                 else (m, sch1, sim1)))))))"

definition execute_all_cores :: "scheduler \<Rightarrow> simulator \<Rightarrow> real \<times> scheduler \<times> simulator" where
  "execute_all_cores sch sim =
     (case fold (execute_core (get_time_quantum sch)) [0..<length (cores sim)] (None, sch, sim) of
        (min_time_slice, sch1, sim1) \<Rightarrow>
          ((case min_time_slice of None \<Rightarrow> 0 | Some m \<Rightarrow> m), sch1, sim1))"

text \<open>
  The main \<open>while True\<close> loop of \<open>run_simulation\<close>, with fuel: one unit per iteration,
  \<open>None\<close> when the fuel runs out before the loop leaves. A result carries the exception
  raised inside the loop, if any.
\<close>

fun simulation_loop ::
  "nat \<Rightarrow> real option \<Rightarrow> nat \<Rightarrow> scheduler \<Rightarrow> simulator \<Rightarrow> (error option \<times> scheduler \<times> simulator) option" where
  "simulation_loop 0 max_time process_index sch sim = None"
| "simulation_loop (Suc fuel) max_time process_index sch sim =
     (if (case max_time of None \<Rightarrow> False | Some m \<Rightarrow> current_time sim \<ge> m)
      then Some (None, sch, sim)
      else if length (completed_processes sim) \<ge> length (all_processes sim)
      then Some (None, sch, sim)
      else (case admit_arrivals process_index sch sim of
              (process_index1, sch1, sim1) \<Rightarrow>
                (case assign_processes_to_cores [0..<length (cores sim1)] sch1 sim1 of
                   (Some e, sch2, sim2) \<Rightarrow> Some (Some e, sch2, sim2)
                 | (None, sch2, sim2) \<Rightarrow>
                     (case execute_all_cores sch2 sim2 of
                        (min_time_slice, sch3, sim3) \<Rightarrow>
                          if min_time_slice > 0
                          then simulation_loop fuel max_time process_index1 sch3
                                 (sim3\<lparr>current_time := current_time sim3 + min_time_slice\<rparr>)
                          else if process_index1 < length (all_processes sim3)
                          then simulation_loop fuel max_time process_index1 sch3
                                 (sim3\<lparr>current_time :=
                                         arrival_time (all_processes sim3 ! process_index1)\<rparr>)
                          else Some (None, sch3, sim3)))))"

text \<open>
  The preparation of a run: \<open>_reset_simulation\<close>, then the stable sort of the processes
  by arrival time. From here on a reference is a position in the sorted list.
\<close>

definition prepare_simulation :: "simulator \<Rightarrow> simulator" where
  "prepare_simulation sim =
     (let sim1 = reset_simulation sim
      in sim1\<lparr>all_processes := sort_key arrival_time (all_processes sim1)\<rparr>)"

text \<open>
  \<open>run_simulation(max_time)\<close>: the outcome (the exception raised or the metrics returned)
  and the simulator as the call leaves it; \<open>None\<close> when the fuel does not suffice.
\<close>

definition run_simulation ::
  "nat \<Rightarrow> real option \<Rightarrow> simulator \<Rightarrow> ((error + performance_metrics) \<times> simulator) option" where
  "run_simulation fuel max_time sim =
     (case scheduler sim of
        None \<Rightarrow> Some (Inl (ValueError ''No scheduler set. Use set_scheduler() first.''), sim)
      | Some sch0 \<Rightarrow>
          if all_processes sim = []
          then Some (Inl (ValueError
                 ''No processes to simulate. Use generate_processes() or add_process() first.''), sim)
          else (case simulation_loop fuel max_time 0 (reset_scheduler sch0)
                        (prepare_simulation sim) of
                  None \<Rightarrow> None
                | Some (Some e, sch1, sim3) \<Rightarrow> Some (Inl e, sim3\<lparr>scheduler := Some sch1\<rparr>)
                | Some (None, sch1, sim3) \<Rightarrow>
                    (let m = calculate_metrics (all_processes sim3) (cores sim3)
                               (current_time sim3) (total_context_switches sim3)
                     in Some (Inr m, sim3\<lparr>scheduler := Some sch1, metrics := Some m\<rparr>))))"

text \<open>The two configuration errors that \<open>run_simulation\<close> raises before it starts.\<close>

definition configuration_error :: "error \<Rightarrow> bool" where
  "configuration_error e \<longleftrightarrow>
     e = ValueError ''No scheduler set. Use set_scheduler() first.'' \<or>
     e = ValueError ''No processes to simulate. Use generate_processes() or add_process() first.''"

subsection \<open>Auxiliary notions for the proofs\<close>

text \<open>
  The exceptions a policy can raise inside \<open>select_process\<close>: the division by a zero core
  count in the adaptive scheduler, and in the work-stealing policy the lookup of a core
  id it has no queue for and \<open>min\<close> over no queues at all.
\<close>

definition policy_error :: "error \<Rightarrow> bool" where
  "policy_error e \<longleftrightarrow>
     e = ZeroDivisionError \<or> (\<exists>k. e = KeyError k) \<or>
     e = ValueError ''min() arg is an empty sequence''"

text \<open>
  What holds of every process record between two steps of the engine: it is not left in
  the running state, a terminated process has its start and completion times set, and
  whenever these times are set the derived times are computed from them.
\<close>

definition process_inv :: "process \<Rightarrow> bool" where
  "process_inv p \<longleftrightarrow>
     (state p = NEW \<or> state p = READY \<or> state p = TERMINATED) \<and>
     (state p = TERMINATED \<longrightarrow> completion_time p \<noteq> None \<and> start_time p \<noteq> None) \<and>
     (\<forall>c. completion_time p = Some c \<longrightarrow>
        turnaround_time p = c - arrival_time p \<and>
        waiting_time p = turnaround_time p - burst_time p) \<and>
     (\<forall>s. start_time p = Some s \<longrightarrow>
        response_time p = s - arrival_time p \<and> arrival_time p \<le> s)"

text \<open>
  The processes a scheduler keeps a reference to in queues of its own: the rotation queue
  of Round Robin, the per-core and global queues of Work Stealing, and for the adaptive
  scheduler those of all its sub-schedulers.
\<close>

definition queue_refs :: "ref list list \<Rightarrow> ref set" where
  "queue_refs qs = (\<Union>q\<in>set qs. set q)"

definition ws_refs :: "work_stealing \<Rightarrow> ref set" where
  "ws_refs s = queue_refs (core_queues s) \<union> set (global_queue s)"

fun policy_refs :: "policy \<Rightarrow> ref set" where
  "policy_refs (RoundRobinScheduler s) = set (rr_queue s)"
| "policy_refs (WorkStealingScheduler s) = ws_refs s"
| "policy_refs pol = {}"

fun scheduler_refs :: "scheduler \<Rightarrow> ref set" where
  "scheduler_refs (Plain pol) = policy_refs pol"
| "scheduler_refs (AdaptiveScheduler s) = (\<Union>a. policy_refs (schedulers s a))"

text \<open>
  The invariant of the main loop, for the index \<open>idx\<close> of the next process to admit:
  every record satisfies \<open>process_inv\<close>; the processes before \<open>idx\<close> have arrived; the
  ready queue, the cores and the scheduler's queues hold admitted processes only; and every
  entry of the completed list has its start and completion times set.
\<close>

definition store_ok :: "store \<Rightarrow> bool" where
  "store_ok st \<longleftrightarrow> (\<forall>p\<in>set st. process_inv p)"

definition arrived :: "nat \<Rightarrow> store \<Rightarrow> real \<Rightarrow> bool" where
  "arrived idx st now \<longleftrightarrow> idx \<le> length st \<and> (\<forall>i<idx. arrival_time (st ! i) \<le> now)"

definition cores_ok :: "nat \<Rightarrow> cpu_core list \<Rightarrow> bool" where
  "cores_ok idx cs \<longleftrightarrow> (\<forall>c\<in>set cs. \<forall>r. current_process c = Some r \<longrightarrow> r < idx)"

definition done_ok :: "store \<Rightarrow> ref list \<Rightarrow> bool" where
  "done_ok st cp \<longleftrightarrow>
     (\<forall>r\<in>set cp. r < length st \<and> completion_time (st ! r) \<noteq> None \<and> start_time (st ! r) \<noteq> None)"

definition engine_inv :: "nat \<Rightarrow> scheduler \<Rightarrow> simulator \<Rightarrow> bool" where
  "engine_inv idx sch sim \<longleftrightarrow>
     store_ok (all_processes sim) \<and>
     arrived idx (all_processes sim) (current_time sim) \<and>
     set (ready_queue sim) \<subseteq> {..<idx} \<and>
     cores_ok idx (cores sim) \<and>
     scheduler_refs sch \<subseteq> {..<idx} \<and>
     done_ok (all_processes sim) (completed_processes sim)"

text \<open>
  On a single core a process never has executed for longer than the time since its
  arrival, and the waiting time of a completed process is non-negative.
\<close>

definition work_ok :: "real \<Rightarrow> process \<Rightarrow> bool" where
  "work_ok now p \<longleftrightarrow>
     burst_time p - remaining_time p \<le> max 0 (now - arrival_time p) \<and>
     (completion_time p \<noteq> None \<longrightarrow> 0 \<le> waiting_time p)"

definition work_store :: "real \<Rightarrow> store \<Rightarrow> bool" where
  "work_store now st \<longleftrightarrow> (\<forall>p\<in>set st. work_ok now p)"

subsection \<open>Specification-level definitions\<close>

text \<open>
  The adaptive decision as the specification words it, to be compared with the code's
  \<open>analyze_system_state\<close>, \<open>analyze_workload\<close> and \<open>select_best_algorithm\<close>: the load
  class from the ratio of queue length to core count, the workload class from the
  shares of CPU-bound and IO-bound processes and the average remaining time, and the
  fixed decision table.
\<close>

definition spec_system_load :: "nat \<Rightarrow> nat \<Rightarrow> SystemState" where
  "spec_system_load queue_length n =
     (if real queue_length / real n < 1 then LOW_LOAD
      else if real queue_length / real n < 3 then MEDIUM_LOAD
      else HIGH_LOAD)"

text \<open>More than 60 percent of \<open>whole\<close>.\<close>

definition share_above_60 :: "nat \<Rightarrow> nat \<Rightarrow> bool" where
  "share_above_60 part whole \<longleftrightarrow> 100 * part > 60 * whole"

definition average_remaining :: "store \<Rightarrow> ref list \<Rightarrow> real" where
  "average_remaining st ready =
     (\<Sum>r\<leftarrow>ready. remaining_time (st ! r)) / real (length ready)"

definition count_of_type :: "ProcessType \<Rightarrow> store \<Rightarrow> ref list \<Rightarrow> nat" where
  "count_of_type ty st ready = length (filter (\<lambda>r. process_type (st ! r) = ty) ready)"

definition spec_workload :: "store \<Rightarrow> ref list \<Rightarrow> WorkloadCharacteristic" where
  "spec_workload st ready =
     (if ready = [] then MIXED_WORKLOAD
      else if share_above_60 (count_of_type CPU_BOUND st ready) (length ready) then CPU_INTENSIVE
      else if share_above_60 (count_of_type IO_BOUND st ready) (length ready) then IO_INTENSIVE
      else if average_remaining st ready < 10 then SHORT_JOBS
      else if average_remaining st ready > 50 then LONG_JOBS
      else MIXED_WORKLOAD)"

fun spec_table :: "SystemState \<Rightarrow> WorkloadCharacteristic \<Rightarrow> algorithm" where
  "spec_table HIGH_LOAD LONG_JOBS = ROUND_ROBIN"
| "spec_table HIGH_LOAD _ = LOAD_BALANCING"
| "spec_table MEDIUM_LOAD SHORT_JOBS = SJF"
| "spec_table MEDIUM_LOAD IO_INTENSIVE = PRIORITY"
| "spec_table MEDIUM_LOAD _ = WORK_STEALING"
| "spec_table LOW_LOAD SHORT_JOBS = SJF"
| "spec_table LOW_LOAD MIXED_WORKLOAD = WORK_STEALING"
| "spec_table LOW_LOAD _ = FCFS"

text \<open>
  The load-balance score as the specification words it: one minus the coefficient of
  variation (standard deviation divided by mean) of the per-core utilizations, clamped
  to the unit interval, and 1 for a single core or zero variance.
\<close>

definition spec_cv_score :: "real list \<Rightarrow> real" where
  "spec_cv_score us =
     (if length us \<le> 1 \<or> variance us = 0 then 1
      else max 0 (min 1 (1 - stdev us / mean us)))"

text \<open>
  The quantity the specification says \<open>core_loads\<close> tracks: the sum of the remaining
  times of the processes currently bound to the core.
\<close>

definition bound_remaining :: "store \<Rightarrow> load_balancing \<Rightarrow> nat \<Rightarrow> real" where
  "bound_remaining st s c =
     (\<Sum>p\<leftarrow>filter (\<lambda>p. process_assignments s (pid p) = Some c) st. remaining_time p)"

subsection \<open>Concrete scenarios\<close>

text \<open>A single-core FCFS simulator with one process of burst 5 arriving at time 0.\<close>

definition fcfs_single :: simulator where
  "fcfs_single =
     add_process (Process 0 0 5 0 MIXED None)
       (set_scheduler (Plain FCFSScheduler) (MulticoreSchedulerSimulator 1))"

text \<open>A single-core Load Balancing simulator with one process of burst 10 arriving at time 0.\<close>

definition lb_single :: simulator where
  "lb_single =
     add_process (Process 0 0 10 0 MIXED None)
       (set_scheduler (Plain (LoadBalancingScheduler (LoadBalancingScheduler_init (3 / 10))))
          (MulticoreSchedulerSimulator 1))"

text \<open>
  A three-core Round Robin simulator (quantum 4) with two processes of burst 3, both
  arriving at time 0.
\<close>

definition rr_three_cores :: simulator where
  "rr_three_cores =
     add_process (Process 1 0 3 0 MIXED None)
       (add_process (Process 0 0 3 0 MIXED None)
          (set_scheduler (Plain (RoundRobinScheduler (RoundRobinScheduler_init 4)))
             (MulticoreSchedulerSimulator 3)))"

text \<open>
  A two-core simulator running preemptive SJF (shortest remaining time first) with a
  process of burst 2 and a process of burst 1/2, both arriving at time 0.
\<close>

definition srtf_two_cores :: simulator where
  "srtf_two_cores =
     add_process (Process 1 0 (1 / 2) 0 MIXED None)
       (add_process (Process 0 0 2 0 MIXED None)
          (set_scheduler (Plain (SJFScheduler True)) (MulticoreSchedulerSimulator 2)))"

text \<open>The same scheduler and processes on a single core.\<close>

definition srtf_one_core :: simulator where
  "srtf_one_core =
     add_process (Process 1 0 (1 / 2) 0 MIXED None)
       (add_process (Process 0 0 2 0 MIXED None)
          (set_scheduler (Plain (SJFScheduler True)) (MulticoreSchedulerSimulator 1)))"

section \<open>Properties\<close>

subsection \<open>The process entity\<close>

lemma min_slice_le: "min_slice ts r \<le> r"
  by (cases ts) simp_all

lemma execute_fst: "fst (execute ts now c p) = min_slice ts (remaining_time p)"
  by (simp add: execute_def execute_track_def execute_start_def Let_def)

lemma execute_remaining:
  "remaining_time (snd (execute ts now c p)) = remaining_time p - min_slice ts (remaining_time p)"
  by (simp add: execute_def execute_track_def execute_start_def execute_finish_def Let_def)

lemma execute_remaining_nonneg: "0 \<le> remaining_time (snd (execute ts now c p))"
  using min_slice_le [of ts "remaining_time p"] by (simp add: execute_remaining)

lemma execute_state:
  "state (snd (execute ts now c p)) =
     (if remaining_time p - min_slice ts (remaining_time p) \<le> 0 then TERMINATED else READY)"
  by (simp add: execute_def execute_track_def execute_start_def execute_finish_def Let_def)

lemma execute_completion:
  "remaining_time p - min_slice ts (remaining_time p) \<le> 0 \<Longrightarrow>
   completion_time (snd (execute ts now c p)) = Some (now + min_slice ts (remaining_time p))"
  by (simp add: execute_def execute_track_def execute_start_def execute_finish_def Let_def)

lemma execute_first_start:
  "state p = NEW \<or> state p = READY \<Longrightarrow> start_time p = None \<Longrightarrow>
   start_time (snd (execute ts now c p)) = Some now \<and>
   response_time (snd (execute ts now c p)) = now - arrival_time p"
  by (auto simp add: execute_def execute_track_def execute_start_def execute_finish_def Let_def)

text \<open>
  C1. For a process in state NEW or READY with remaining time \<open>r\<close>, \<open>execute\<close> returns
  exactly \<open>min(timeSlice, r)\<close> (which is \<open>r\<close> for the unbounded slice \<open>float('inf')\<close>) and
  decreases the remaining time by that amount; when the
  start time is not yet set it records start time = currentTime and response time =
  currentTime - arrival time; afterwards the process is TERMINATED with completion time
  = currentTime + returned time if the remaining time reached zero, and READY otherwise.
\<close>

theorem execute_contract:
  assumes "state p = NEW \<or> state p = READY"
  shows "fst (execute ts now c p)
           = (case ts of Finite t \<Rightarrow> min t (remaining_time p) | Unbounded \<Rightarrow> remaining_time p) \<and>
         remaining_time (snd (execute ts now c p)) = remaining_time p - fst (execute ts now c p) \<and>
         (start_time p = None \<longrightarrow>
            start_time (snd (execute ts now c p)) = Some now \<and>
            response_time (snd (execute ts now c p)) = now - arrival_time p) \<and>
         (remaining_time (snd (execute ts now c p)) = 0 \<longrightarrow>
            state (snd (execute ts now c p)) = TERMINATED \<and>
            completion_time (snd (execute ts now c p)) = Some (now + fst (execute ts now c p))) \<and>
         (remaining_time (snd (execute ts now c p)) \<noteq> 0 \<longrightarrow>
            state (snd (execute ts now c p)) = READY)"
proof -
  let ?a = "min_slice ts (remaining_time p)"
  have nonneg: "0 \<le> remaining_time p - ?a"
    using min_slice_le [of ts "remaining_time p"] by simp
  have fin: "remaining_time p - ?a = 0 \<Longrightarrow> state (snd (execute ts now c p)) = TERMINATED"
    by (simp add: execute_state)
  have compl: "remaining_time p - ?a = 0 \<Longrightarrow>
      completion_time (snd (execute ts now c p)) = Some (now + ?a)"
    by (simp add: execute_completion)
  have ready: "remaining_time p - ?a \<noteq> 0 \<Longrightarrow> state (snd (execute ts now c p)) = READY"
    using nonneg by (simp add: execute_state)
  have ret: "?a = (case ts of Finite t \<Rightarrow> min t (remaining_time p) | Unbounded \<Rightarrow> remaining_time p)"
    by (cases ts) simp_all
  have "fst (execute ts now c p) = ?a \<and>
      remaining_time (snd (execute ts now c p)) = remaining_time p - fst (execute ts now c p) \<and>
      (start_time p = None \<longrightarrow>
         start_time (snd (execute ts now c p)) = Some now \<and>
         response_time (snd (execute ts now c p)) = now - arrival_time p) \<and>
      (remaining_time (snd (execute ts now c p)) = 0 \<longrightarrow>
         state (snd (execute ts now c p)) = TERMINATED \<and>
         completion_time (snd (execute ts now c p)) = Some (now + fst (execute ts now c p))) \<and>
      (remaining_time (snd (execute ts now c p)) \<noteq> 0 \<longrightarrow>
         state (snd (execute ts now c p)) = READY)"
    using assms fin compl ready execute_first_start [of p ts now c]
    by (simp add: execute_fst execute_remaining)
  then show ?thesis unfolding ret .
qed

theorem execute_contract_witness:
  "fst (execute (Finite 4) 2 0 (Process 1 0 3 0 MIXED None)) = 3 \<and>
   remaining_time (snd (execute (Finite 4) 2 0 (Process 1 0 3 0 MIXED None))) = 0 \<and>
   start_time (snd (execute (Finite 4) 2 0 (Process 1 0 3 0 MIXED None))) = Some 2 \<and>
   response_time (snd (execute (Finite 4) 2 0 (Process 1 0 3 0 MIXED None))) = 2 \<and>
   state (snd (execute (Finite 4) 2 0 (Process 1 0 3 0 MIXED None))) = TERMINATED \<and>
   completion_time (snd (execute (Finite 4) 2 0 (Process 1 0 3 0 MIXED None))) = Some 5 \<and>
   fst (execute (Finite 1) 2 0 (Process 1 0 10 0 MIXED None)) = 1 \<and>
   remaining_time (snd (execute (Finite 1) 2 0 (Process 1 0 10 0 MIXED None))) = 9 \<and>
   start_time (snd (execute (Finite 1) 2 0 (Process 1 0 10 0 MIXED None))) = Some 2 \<and>
   state (snd (execute (Finite 1) 2 0 (Process 1 0 10 0 MIXED None))) = READY \<and>
   fst (execute Unbounded 2 0 (Process 1 0 10 0 MIXED None)) = 10 \<and>
   state (snd (execute Unbounded 2 0 (Process 1 0 10 0 MIXED None))) = TERMINATED"
  using execute_contract [of "Process 1 0 3 0 MIXED None" "Finite 4" 2 0]
    execute_contract [of "Process 1 0 10 0 MIXED None" "Finite 1" 2 0]
    execute_contract [of "Process 1 0 10 0 MIXED None" Unbounded 2 0]
  by (simp add: Process_def)

text \<open>
  C10. Calling \<open>execute\<close> on a process that is already TERMINATED with remaining time
  zero (with a time slice that is a duration: non-negative or unbounded) returns 0 and
  leaves the remaining time at zero and the state TERMINATED, but it overwrites the
  completion time with the call's current time and recomputes turnaround and waiting
  time from it, whatever they were before.
\<close>

theorem execute_terminated_overwrites:
  assumes "state p = TERMINATED" and "remaining_time p = 0"
    and "ts = Unbounded \<or> (\<exists>t. ts = Finite t \<and> 0 \<le> t)"
  shows "fst (execute ts now c p) = 0 \<and>
         remaining_time (snd (execute ts now c p)) = 0 \<and>
         state (snd (execute ts now c p)) = TERMINATED \<and>
         completion_time (snd (execute ts now c p)) = Some now \<and>
         turnaround_time (snd (execute ts now c p)) = now - arrival_time p \<and>
         waiting_time (snd (execute ts now c p)) = (now - arrival_time p) - burst_time p"
  using assms
  by (auto simp add: execute_def execute_track_def execute_start_def execute_finish_def Let_def)

theorem execute_terminated_overwrites_witness:
  "completion_time (snd (execute (Finite 4) 0 1
      ((Process 0 0 3 0 MIXED None)\<lparr>state := TERMINATED, remaining_time := 0,
          completion_time := Some 3, turnaround_time := 3, waiting_time := 0\<rparr>))) = Some 0 \<and>
   waiting_time (snd (execute (Finite 4) 0 1
      ((Process 0 0 3 0 MIXED None)\<lparr>state := TERMINATED, remaining_time := 0,
          completion_time := Some 3, turnaround_time := 3, waiting_time := 0\<rparr>))) = - 3"
  using execute_terminated_overwrites [of
      "(Process 0 0 3 0 MIXED None)\<lparr>state := TERMINATED, remaining_time := 0,
          completion_time := Some 3, turnaround_time := 3, waiting_time := 0\<rparr>"
      "Finite 4" 0 1]
  by (simp add: Process_def)

subsection \<open>The adaptive decision\<close>

lemma ratio_above_60:
  assumes "0 < whole"
  shows "real part / real whole > 6 / 10 \<longleftrightarrow> share_above_60 part whole"
proof -
  have "real part / real whole > 6 / 10 \<longleftrightarrow> 6 * real whole < 10 * real part"
    using assms by (simp add: field_simps)
  also have "\<dots> \<longleftrightarrow> 6 * whole < 10 * part"
    by (metis (mono_tags) of_nat_less_iff of_nat_mult of_nat_numeral)
  also have "\<dots> \<longleftrightarrow> share_above_60 part whole"
    unfolding share_above_60_def by presburger
  finally show ?thesis .
qed

lemma analyze_workload_spec: "analyze_workload st ready = spec_workload st ready"
proof (cases "ready = []")
  case True
  then show ?thesis by (simp add: analyze_workload_def spec_workload_def)
next
  case False
  then have pos: "0 < length ready" by simp
  show ?thesis
    using False ratio_above_60 [OF pos]
    by (simp add: analyze_workload_def spec_workload_def Let_def count_of_type_def
        average_remaining_def)
qed

lemma analyze_system_state_spec:
  "n \<noteq> 0 \<Longrightarrow> analyze_system_state n ready = Inr (spec_system_load (length ready) n)"
  by (simp add: analyze_system_state_def spec_system_load_def Let_def)

lemma select_best_algorithm_spec: "select_best_algorithm ss w = spec_table ss w"
  by (cases ss; cases w) (simp_all add: select_best_algorithm_def)

text \<open>
  C4. The adaptive scheduler's choice depends on the ready queue and the core count
  only: for a nonzero core count the adaptation succeeds and the policy it makes current
  is the entry of the fixed table for the load class (LOW below a ratio of 1, MEDIUM
  below 3, else HIGH) and the workload class (CPU_INTENSIVE above 60 percent CPU-bound,
  else IO_INTENSIVE above 60 percent IO-bound, else SHORT_JOBS for an average remaining
  time below 10, else LONG_JOBS above 50, else MIXED, also for an empty queue). With a
  zero core count the ratio does not exist and the source raises ZeroDivisionError.
\<close>

theorem adaptive_choice:
  assumes "adaptive_num_cores s \<noteq> 0"
  shows "\<exists>s'. adapt_scheduler st ready s = Inr s' \<and>
           current_scheduler_name s' =
             spec_table (spec_system_load (length ready) (adaptive_num_cores s))
                        (spec_workload st ready)"
  using assms
  by (simp add: adapt_scheduler_def analyze_system_state_spec analyze_workload_spec
      select_best_algorithm_spec Let_def)

theorem adaptive_choice_witness:
  "\<exists>s'. adapt_scheduler [Process 0 0 20 0 CPU_BOUND None] [0]
            (AdaptiveScheduler_init 2 50 (\<lambda>k. 0)) = Inr s' \<and>
        current_scheduler_name s' = FCFS"
  using adaptive_choice [of "AdaptiveScheduler_init 2 50 (\<lambda>k. 0)"
      "[Process 0 0 20 0 CPU_BOUND None]" "[0]"]
  by (simp add: AdaptiveScheduler_init_def spec_system_load_def spec_workload_def
      share_above_60_def count_of_type_def Process_def)

subsection \<open>The load-balance score\<close>

lemma variance_nonneg: "0 \<le> variance xs"
proof (cases "length xs \<le> 1")
  case True
  then have "length xs = 0 \<or> length xs = 1" by linarith
  then show ?thesis by (auto simp add: variance_def)
next
  case False
  then have "0 < real (length xs) - 1" by simp
  moreover have "0 \<le> sum_list (map (\<lambda>x. (x - mean xs)\<^sup>2) xs)"
    by (rule sum_list_nonneg) auto
  ultimately show ?thesis by (simp add: variance_def)
qed

lemma stdev_nonneg: "0 \<le> stdev xs"
  by (simp add: stdev_def variance_nonneg)

lemma mean_constant:
  assumes "xs \<noteq> []" and "\<forall>x\<in>set xs. x = c"
  shows "mean xs = c"
proof -
  have "map (\<lambda>x. c) xs = xs" using assms(2) by (induction xs) auto
  then have "sum_list xs = sum_list (map (\<lambda>x. c) xs)" by simp
  also have "\<dots> = real (length xs) * c" by (simp add: sum_list_triv)
  finally show ?thesis using assms(1) by (simp add: mean_def)
qed

lemma sum_list_all_zero: "(\<forall>x\<in>set xs. f x = 0) \<Longrightarrow> sum_list (map f xs) = (0::real)"
  by (induction xs) auto

lemma variance_constant:
  assumes "\<forall>x\<in>set xs. \<forall>y\<in>set xs. x = y"
  shows "variance xs = 0"
proof (cases xs)
  case Nil
  then show ?thesis by (simp add: variance_def)
next
  case (Cons a as)
  then have all: "\<forall>x\<in>set xs. x = a" using assms by auto
  have ne: "xs \<noteq> []" using Cons by simp
  have m: "mean xs = a" by (rule mean_constant [OF ne all])
  have "\<forall>x\<in>set xs. (x - mean xs)\<^sup>2 = 0" using all m by simp
  then have "sum_list (map (\<lambda>x. (x - mean xs)\<^sup>2) xs) = 0" by (rule sum_list_all_zero)
  then show ?thesis by (simp add: variance_def)
qed

lemma score_unfold:
  "load_balance_score (calculate_metrics ps cs t k) =
     (if filter is_completed ps = [] then 0
      else if length cs > 1 then max 0 (1 - stdev (map (\<lambda>c. get_utilization c t) cs) / 100)
      else 1)"
  by (simp add: calculate_metrics_def Let_def)

lemma sqrt_2500: "sqrt 2500 = 50"
  using real_sqrt_abs [of 50] by simp

text \<open>
  C5, as amended. When at least one process has completed, the load-balance score is one
  minus the sample standard deviation of the per-core utilization percentages divided
  by 100 (not by their mean), clamped to the unit interval, and it is 1 when there is
  at most one core; it is therefore 1 as well when the utilizations have zero variance.
  When no process has completed the score is 0.
\<close>

theorem load_balance_score_formula:
  "load_balance_score (calculate_metrics ps cs t k) =
     (if filter is_completed ps = [] then 0
      else if length cs \<le> 1 then 1
      else max 0 (min 1 (1 - stdev (map (\<lambda>c. get_utilization c t) cs) / 100)))
   \<and> (filter is_completed ps \<noteq> [] \<and> variance (map (\<lambda>c. get_utilization c t) cs) = 0
        \<longrightarrow> load_balance_score (calculate_metrics ps cs t k) = 1)"
proof -
  let ?us = "map (\<lambda>c. get_utilization c t) cs"
  have le1: "1 - stdev ?us / 100 \<le> 1" using stdev_nonneg [of ?us] by simp
  have first: "load_balance_score (calculate_metrics ps cs t k) =
     (if filter is_completed ps = [] then 0
      else if length cs \<le> 1 then 1
      else max 0 (min 1 (1 - stdev ?us / 100)))"
  proof -
    have "min 1 (1 - stdev ?us / 100) = 1 - stdev ?us / 100" using le1 by simp
    then show ?thesis by (simp add: score_unfold not_less)
  qed
  have second: "filter is_completed ps \<noteq> [] \<Longrightarrow> variance ?us = 0 \<Longrightarrow>
      load_balance_score (calculate_metrics ps cs t k) = 1"
    by (simp add: score_unfold stdev_def)
  show ?thesis using first second by blast
qed

theorem load_balance_score_formula_witness:
  "load_balance_score
     (calculate_metrics [(Process 0 0 5 0 MIXED None)\<lparr>state := TERMINATED\<rparr>]
        [(CPUCore 0)\<lparr>total_busy_time := 5\<rparr>, (CPUCore 1)\<lparr>total_busy_time := 5\<rparr>] 10 0) = 1"
  using load_balance_score_formula [of "[(Process 0 0 5 0 MIXED None)\<lparr>state := TERMINATED\<rparr>]"
      "[(CPUCore 0)\<lparr>total_busy_time := 5\<rparr>, (CPUCore 1)\<lparr>total_busy_time := 5\<rparr>]" 10 0]
  by (simp add: is_completed_def Process_def CPUCore_def get_utilization_def variance_def mean_def)

text \<open>
  The claim as stated fails: for three cores with utilizations 0, 50 and 100 percent the
  code's score is 1/2, while one minus the coefficient of variation is 0.
\<close>

theorem load_balance_score_not_cv:
  "load_balance_score
     (calculate_metrics [(Process 0 0 5 0 MIXED None)\<lparr>state := TERMINATED\<rparr>]
        [(CPUCore 0)\<lparr>total_busy_time := 0\<rparr>, (CPUCore 1)\<lparr>total_busy_time := 5\<rparr>,
         (CPUCore 2)\<lparr>total_busy_time := 10\<rparr>] 10 0) = 1 / 2
   \<and> spec_cv_score
       (map (\<lambda>c. get_utilization c 10)
          [(CPUCore 0)\<lparr>total_busy_time := 0\<rparr>, (CPUCore 1)\<lparr>total_busy_time := 5\<rparr>,
           (CPUCore 2)\<lparr>total_busy_time := 10\<rparr>]) = 0"
  by (simp add: calculate_metrics_def Let_def is_completed_def Process_def CPUCore_def
      get_utilization_def stdev_def variance_def mean_def spec_cv_score_def sqrt_2500)

text \<open>
  C6, as amended. For every input of \<open>calculate_metrics\<close> the load-balance score lies
  between 0 and 1, and it equals 1 whenever at least one process has completed and all
  per-core utilizations are equal, which includes the single-core case.
\<close>

theorem load_balance_score_range:
  "0 \<le> load_balance_score (calculate_metrics ps cs t k)
   \<and> load_balance_score (calculate_metrics ps cs t k) \<le> 1
   \<and> (filter is_completed ps \<noteq> []
        \<and> (\<forall>c\<in>set cs. \<forall>d\<in>set cs. get_utilization c t = get_utilization d t)
        \<longrightarrow> load_balance_score (calculate_metrics ps cs t k) = 1)"
proof -
  let ?us = "map (\<lambda>c. get_utilization c t) cs"
  have le1: "1 - stdev ?us / 100 \<le> 1" using stdev_nonneg [of ?us] by simp
  have lower: "0 \<le> load_balance_score (calculate_metrics ps cs t k)"
    by (simp add: score_unfold)
  have upper: "load_balance_score (calculate_metrics ps cs t k) \<le> 1"
    using le1 by (simp add: score_unfold)
  have equal: "load_balance_score (calculate_metrics ps cs t k) = 1"
    if compl: "filter is_completed ps \<noteq> []"
      and same: "\<forall>c\<in>set cs. \<forall>d\<in>set cs. get_utilization c t = get_utilization d t"
  proof -
    have "\<forall>x\<in>set ?us. \<forall>y\<in>set ?us. x = y"
    proof (intro ballI)
      fix x y
      assume "x \<in> set ?us" and "y \<in> set ?us"
      then obtain c d where "c \<in> set cs" and x: "x = get_utilization c t"
        and "d \<in> set cs" and y: "y = get_utilization d t"
        unfolding set_map by blast
      then have "get_utilization c t = get_utilization d t" using same by blast
      then show "x = y" by (simp only: x y)
    qed
    then have "variance ?us = 0" by (rule variance_constant)
    then show ?thesis using compl by (simp add: score_unfold stdev_def)
  qed
  show ?thesis using lower upper equal by blast
qed

theorem load_balance_score_range_witness:
  "load_balance_score
     (calculate_metrics [(Process 0 0 5 0 MIXED None)\<lparr>state := TERMINATED\<rparr>]
        [(CPUCore 0)\<lparr>total_busy_time := 7\<rparr>, (CPUCore 1)\<lparr>total_busy_time := 7\<rparr>,
         (CPUCore 2)\<lparr>total_busy_time := 7\<rparr>] 10 0) = 1"
  using load_balance_score_range [of "[(Process 0 0 5 0 MIXED None)\<lparr>state := TERMINATED\<rparr>]"
      "[(CPUCore 0)\<lparr>total_busy_time := 7\<rparr>, (CPUCore 1)\<lparr>total_busy_time := 7\<rparr>,
        (CPUCore 2)\<lparr>total_busy_time := 7\<rparr>]" 10 0]
  by (simp add: is_completed_def Process_def CPUCore_def get_utilization_def)

text \<open>
  The claim as stated fails on a run in which no process completes: a single-core run
  bounded by \<open>max_time = 0\<close> leaves the loop at once and reports the score 0, although
  there is only one core.
\<close>

theorem load_balance_score_zero_without_completion:
  "(case run_simulation 1 (Some 0) fcfs_single of
      Some (Inr m, s) \<Rightarrow>
        load_balance_score m = 0 \<and> length (cores s) = 1 \<and> completed_processes s = []
    | _ \<Rightarrow> False)"
  by (simp add: fcfs_single_def run_simulation_def prepare_simulation_def add_process_def
      set_scheduler_def MulticoreSchedulerSimulator_def reset_simulation_def
      calculate_metrics_def is_completed_def Process_def reset_process_def Let_def)

subsection \<open>Load Balancing bookkeeping\<close>

lemma hd_sort_key_in: "xs \<noteq> [] \<Longrightarrow> hd (sort_key f xs) \<in> set xs"
proof -
  assume "xs \<noteq> []"
  then have "sort_key f xs \<noteq> []" by (metis length_sort length_0_conv)
  then have "hd (sort_key f xs) \<in> set (sort_key f xs)" by (rule hd_in_set)
  then show ?thesis by simp
qed

lemma lb_bind:
  assumes "ready \<noteq> []"
    and "filter (\<lambda>r. process_assignments s (pid (st ! r)) = Some (core_id core)) ready = []"
    and "filter (\<lambda>r. process_assignments s (pid (st ! r)) = None) ready \<noteq> []"
  shows "\<exists>r. fst (lb_select_process st core ready s) = Some r \<and> r \<in> set ready \<and>
           process_assignments s (pid (st ! r)) = None \<and>
           process_assignments (snd (lb_select_process st core ready s)) (pid (st ! r))
             = Some (core_id core) \<and>
           core_loads (snd (lb_select_process st core ready s)) (core_id core)
             = Some (load_of (core_loads s) (core_id core) + remaining_time (st ! r))"
proof -
  let ?un = "filter (\<lambda>r. process_assignments s (pid (st ! r)) = None) ready"
  let ?sel = "hd (sort_key (\<lambda>r. (remaining_time (st ! r), arrival_time (st ! r))) ?un)"
  have "?sel \<in> set ?un" using assms(3) by (rule hd_sort_key_in)
  then have mem: "?sel \<in> set ready" and un: "process_assignments s (pid (st ! ?sel)) = None"
    by simp_all
  have res: "lb_select_process st core ready s =
      (Some ?sel,
       s\<lparr>process_assignments := (process_assignments s)(pid (st ! ?sel) \<mapsto> core_id core),
         core_loads := (core_loads s)(core_id core \<mapsto>
             load_of (core_loads s) (core_id core) + remaining_time (st ! ?sel))\<rparr>)"
    using assms by (simp add: lb_select_process_def Let_def)
  show ?thesis
    by (rule exI [of _ ?sel]) (simp add: res mem un)
qed

lemma lb_complete:
  assumes "process_assignments s (pid (st ! r)) = Some c"
  shows "core_loads (lb_on_process_completion st r s) c
           = Some (max 0 (load_of (core_loads s) c - burst_time (st ! r))) \<and>
         process_assignments (lb_on_process_completion st r s) (pid (st ! r)) = None \<and>
         (\<forall>c'. c' \<noteq> c \<longrightarrow> core_loads (lb_on_process_completion st r s) c' = core_loads s c') \<and>
         (\<forall>i. i \<noteq> pid (st ! r) \<longrightarrow>
            process_assignments (lb_on_process_completion st r s) i = process_assignments s i)"
  using assms by (simp add: lb_on_process_completion_def)

text \<open>
  C9, as amended. When the Load Balancing policy binds an unassigned ready process to the
  requesting core (no ready process is bound to that core yet), it records the
  assignment and adds the process's remaining time at that moment to the core's
  recorded load; the record is not a function of the store, so later execution does not
  change it. When a bound process completes, \<open>on_process_completion\<close> subtracts the
  process's original burst time from the recorded load of its core, with 0 as the
  floor, removes the assignment entry and leaves every other entry as it was.
\<close>

theorem lb_bookkeeping:
  "(ready \<noteq> [] \<and>
    filter (\<lambda>r. process_assignments s (pid (st ! r)) = Some (core_id core)) ready = [] \<and>
    filter (\<lambda>r. process_assignments s (pid (st ! r)) = None) ready \<noteq> []
    \<longrightarrow> (\<exists>r. fst (lb_select_process st core ready s) = Some r \<and> r \<in> set ready \<and>
           process_assignments s (pid (st ! r)) = None \<and>
           process_assignments (snd (lb_select_process st core ready s)) (pid (st ! r))
             = Some (core_id core) \<and>
           core_loads (snd (lb_select_process st core ready s)) (core_id core)
             = Some (load_of (core_loads s) (core_id core) + remaining_time (st ! r))))
   \<and> (process_assignments s (pid (st ! q)) = Some c
    \<longrightarrow> core_loads (lb_on_process_completion st q s) c
           = Some (max 0 (load_of (core_loads s) c - burst_time (st ! q))) \<and>
         process_assignments (lb_on_process_completion st q s) (pid (st ! q)) = None \<and>
         (\<forall>c'. c' \<noteq> c \<longrightarrow> core_loads (lb_on_process_completion st q s) c' = core_loads s c') \<and>
         (\<forall>i. i \<noteq> pid (st ! q) \<longrightarrow>
            process_assignments (lb_on_process_completion st q s) i = process_assignments s i))"
proof (intro conjI impI)
  assume "ready \<noteq> [] \<and>
    filter (\<lambda>r. process_assignments s (pid (st ! r)) = Some (core_id core)) ready = [] \<and>
    filter (\<lambda>r. process_assignments s (pid (st ! r)) = None) ready \<noteq> []"
  then show "\<exists>r. fst (lb_select_process st core ready s) = Some r \<and> r \<in> set ready \<and>
           process_assignments s (pid (st ! r)) = None \<and>
           process_assignments (snd (lb_select_process st core ready s)) (pid (st ! r))
             = Some (core_id core) \<and>
           core_loads (snd (lb_select_process st core ready s)) (core_id core)
             = Some (load_of (core_loads s) (core_id core) + remaining_time (st ! r))"
    using lb_bind [of ready s st core] by blast
next
  assume a: "process_assignments s (pid (st ! q)) = Some c"
  show "core_loads (lb_on_process_completion st q s) c
           = Some (max 0 (load_of (core_loads s) c - burst_time (st ! q)))"
    using lb_complete [OF a] by blast
  show "process_assignments (lb_on_process_completion st q s) (pid (st ! q)) = None"
    using lb_complete [OF a] by blast
  show "\<forall>c'. c' \<noteq> c \<longrightarrow> core_loads (lb_on_process_completion st q s) c' = core_loads s c'"
    using lb_complete [OF a] by blast
  show "\<forall>i. i \<noteq> pid (st ! q) \<longrightarrow>
            process_assignments (lb_on_process_completion st q s) i = process_assignments s i"
    using lb_complete [OF a] by blast
qed

theorem lb_bookkeeping_witness:
  "fst (lb_select_process [Process 7 0 10 0 MIXED None] (CPUCore 0) [0]
          (LoadBalancingScheduler_init (3 / 10))) = Some 0 \<and>
   core_loads (snd (lb_select_process [Process 7 0 10 0 MIXED None] (CPUCore 0) [0]
          (LoadBalancingScheduler_init (3 / 10)))) 0 = Some 10 \<and>
   core_loads
     (lb_on_process_completion [Process 7 0 4 0 MIXED None] 0
        ((LoadBalancingScheduler_init (3 / 10))
           \<lparr>core_loads := [0 \<mapsto> 10], process_assignments := [7 \<mapsto> 0]\<rparr>)) 0 = Some 6 \<and>
   process_assignments
     (lb_on_process_completion [Process 7 0 4 0 MIXED None] 0
        ((LoadBalancingScheduler_init (3 / 10))
           \<lparr>core_loads := [0 \<mapsto> 10], process_assignments := [7 \<mapsto> 0]\<rparr>)) 7 = None"
  using lb_bookkeeping [of "[0]" "LoadBalancingScheduler_init (3 / 10)"
      "[Process 7 0 10 0 MIXED None]" "CPUCore 0"]
    lb_bookkeeping [of _ "(LoadBalancingScheduler_init (3 / 10))
           \<lparr>core_loads := [0 \<mapsto> 10], process_assignments := [7 \<mapsto> 0]\<rparr>"
      "[Process 7 0 4 0 MIXED None]" _ 0 0]
  by (simp add: lb_select_process_def lb_on_process_completion_def
      LoadBalancingScheduler_init_def Process_def CPUCore_def load_of_def Let_def)

text \<open>
  The claim as stated fails: after one step of a single-core run (bounded by
  \<open>max_time = 5\<close>) the only process, of burst 10, is bound to core 0 and has remaining
  time 5, while the recorded load of core 0 is still 10.
\<close>

lemma lb_loop:
  "(case simulation_loop 2 (Some 5) 0
           (reset_scheduler (Plain (LoadBalancingScheduler (LoadBalancingScheduler_init (3 / 10)))))
           (prepare_simulation lb_single) of
      Some (None, Plain (LoadBalancingScheduler s), sim) \<Rightarrow>
        load_of (core_loads s) 0 = 10 \<and> bound_remaining (all_processes sim) s 0 = 5
    | _ \<Rightarrow> False)"
  by code_simp

theorem lb_load_not_remaining:
  "(case run_simulation 2 (Some 5) lb_single of
      Some (Inr m, sim) \<Rightarrow>
        (case scheduler sim of
           Some (Plain (LoadBalancingScheduler s)) \<Rightarrow>
             load_of (core_loads s) 0 = 10 \<and> bound_remaining (all_processes sim) s 0 = 5
         | _ \<Rightarrow> False)
    | _ \<Rightarrow> False)"
proof -
  have S: "scheduler lb_single =
      Some (Plain (LoadBalancingScheduler (LoadBalancingScheduler_init (3 / 10))))"
    by (simp add: lb_single_def add_process_def set_scheduler_def)
  have A: "all_processes lb_single \<noteq> []"
    by (simp add: lb_single_def add_process_def)
  show ?thesis
    using lb_loop
    by (simp add: run_simulation_def S A Let_def
        split: option.splits prod.splits sum.splits scheduler.splits policy.splits)
qed

subsection \<open>Configuration errors of a run\<close>

lemma policy_error_not_configuration: "policy_error e \<Longrightarrow> \<not> configuration_error e"
  by (auto simp add: policy_error_def configuration_error_def)

lemma distribute_error:
  "fst (distribute st gq s) = Some e \<Longrightarrow> e = ValueError ''min() arg is an empty sequence''"
  by (induction gq arbitrary: s) (auto simp add: Let_def split: if_splits)

lemma ws_select_error:
  assumes "fst (ws_select_process st core ready s) = Inl e"
  shows "policy_error e"
proof (cases "distribute_new_processes st ready s")
  case (Pair r s1)
  show ?thesis
  proof (cases r)
    case None
    then show ?thesis
      using assms Pair
      by (auto simp add: ws_select_process_def policy_error_def split: if_splits list.splits prod.splits)
  next
    case (Some e')
    then have "fst (distribute st (global_queue s @ filter (\<lambda>r. process_core_map s (pid (st ! r)) = None
        \<and> r \<notin> set (global_queue s)) ready) s) = Some e'"
      using Pair by (simp add: distribute_new_processes_def Let_def)
    then have "e' = ValueError ''min() arg is an empty sequence''" by (rule distribute_error)
    then show ?thesis
      using assms Pair Some by (simp add: ws_select_process_def policy_error_def)
  qed
qed

lemma policy_select_error:
  "fst (policy_select_process st core ready now pol) = Inl e \<Longrightarrow> policy_error e"
proof (cases pol)
  case (WorkStealingScheduler s)
  assume "fst (policy_select_process st core ready now pol) = Inl e"
  then have "fst (ws_select_process st core ready s) = Inl e"
    using WorkStealingScheduler by (simp split: prod.splits)
  then show ?thesis by (rule ws_select_error)
qed (auto split: prod.splits)

lemma adaptive_select_error:
  assumes "fst (adaptive_select_process st core ready now s) = Inl e"
  shows "policy_error e"
proof -
  let ?pre = "(if now - last_adaptation_time s \<ge> adaptation_interval s
            then (case adapt_scheduler st ready s of
                    Inl e \<Rightarrow> Inl e
                  | Inr s1 \<Rightarrow> Inr (s1\<lparr>last_adaptation_time := now\<rparr>))
            else Inr s)"
  show ?thesis
  proof (cases ?pre)
    case (Inl e')
    then have "e' = ZeroDivisionError"
      by (auto simp add: adapt_scheduler_def analyze_system_state_def Let_def
          split: if_splits sum.splits)
    moreover have "e = e'" using assms Inl by (simp add: adaptive_select_process_def)
    ultimately show ?thesis by (simp add: policy_error_def)
  next
    case (Inr s1)
    then have "fst (policy_select_process st core ready now (schedulers s1 (current_scheduler_name s1))) = Inl e"
      using assms by (simp add: adaptive_select_process_def split: prod.splits)
    then show ?thesis by (rule policy_select_error)
  qed
qed

lemma select_process_error:
  "fst (select_process st core ready now sch) = Inl e \<Longrightarrow> policy_error e"
proof (cases sch)
  case (Plain pol)
  assume "fst (select_process st core ready now sch) = Inl e"
  then have "fst (policy_select_process st core ready now pol) = Inl e"
    using Plain by (simp split: prod.splits)
  then show ?thesis by (rule policy_select_error)
next
  case (AdaptiveScheduler s)
  assume "fst (select_process st core ready now sch) = Inl e"
  then have "fst (adaptive_select_process st core ready now s) = Inl e"
    using AdaptiveScheduler by (simp split: prod.splits)
  then show ?thesis by (rule adaptive_select_error)
qed

lemma assign_core_error:
  assumes "fst (assign_core i sch sim) = Some e"
  shows "policy_error e"
proof -
  let ?sel = "select_process (all_processes sim) (cores sim ! i) (ready_queue sim) (current_time sim) sch"
  have "fst ?sel = Inl e"
    using assms
    by (auto simp add: assign_core_def Let_def split: if_splits prod.splits sum.splits option.splits)
  then show ?thesis by (rule select_process_error)
qed

lemma assign_processes_error:
  "fst (assign_processes_to_cores is sch sim) = Some e \<Longrightarrow> policy_error e"
proof (induction "is" arbitrary: sch sim)
  case Nil
  then show ?case by simp
next
  case (Cons i rest)
  obtain r sch1 sim1 where a: "assign_core i sch sim = (r, sch1, sim1)"
    by (cases "assign_core i sch sim") auto
  show ?case
  proof (cases r)
    case None
    then show ?thesis using Cons a by simp
  next
    case (Some e')
    then have "e' = e" using Cons.prems a by simp
    moreover have "policy_error e'" using assign_core_error [of i sch sim e'] a Some by simp
    ultimately show ?thesis by simp
  qed
qed

lemma simulation_loop_error:
  "simulation_loop fuel mt idx sch sim = Some (Some e, sch', sim') \<Longrightarrow> policy_error e"
proof (induction fuel arbitrary: idx sch sim)
  case 0
  then show ?case by simp
next
  case (Suc fuel)
  obtain idx1 sch1 sim1 where ad: "admit_arrivals idx sch sim = (idx1, sch1, sim1)"
    by (cases "admit_arrivals idx sch sim") auto
  obtain r sch2 sim2 where
    asg: "assign_processes_to_cores [0..<length (cores sim1)] sch1 sim1 = (r, sch2, sim2)"
    by (cases "assign_processes_to_cores [0..<length (cores sim1)] sch1 sim1") auto
  obtain m sch3 sim3 where ex: "execute_all_cores sch2 sim2 = (m, sch3, sim3)"
    by (cases "execute_all_cores sch2 sim2") auto
  show ?case
  proof (cases r)
    case (Some e')
    have "policy_error e'"
      using assign_processes_error [of "[0..<length (cores sim1)]" sch1 sim1 e'] asg Some by simp
    moreover have "e' = e"
      using Suc.prems ad asg Some by (simp split: if_splits option.splits)
    ultimately show ?thesis by simp
  next
    case None
    then show ?thesis
      using Suc.prems Suc.IH ad asg ex
      by (simp split: if_splits option.splits)
  qed
qed

text \<open>
  C7. \<open>run_simulation\<close> fails with one of its two descriptive configuration errors if and
  only if no scheduler has been set or the list of submitted processes is empty, whatever
  the time bound (and the fuel); and in that case the simulator it leaves behind is the
  simulator it was called on: current time, ready queue, completed list, cores,
  processes and the scheduler's internal state are all unchanged.
\<close>

theorem run_simulation_configuration_error:
  "((\<exists>e sim'. run_simulation fuel mt sim = Some (Inl e, sim') \<and> configuration_error e)
      \<longleftrightarrow> scheduler sim = None \<or> all_processes sim = [])
   \<and> (scheduler sim = None \<or> all_processes sim = []
      \<longrightarrow> (\<exists>e. configuration_error e \<and> run_simulation fuel mt sim = Some (Inl e, sim)))"
proof -
  have fails: "\<exists>e. configuration_error e \<and> run_simulation fuel mt sim = Some (Inl e, sim)"
    if "scheduler sim = None \<or> all_processes sim = []"
    using that
    by (auto simp add: run_simulation_def configuration_error_def split: option.splits)
  have only: "\<not> configuration_error e"
    if ok: "scheduler sim \<noteq> None" "all_processes sim \<noteq> []"
      and res: "run_simulation fuel mt sim = Some (Inl e, sim')" for e sim'
  proof -
    obtain sch0 where s: "scheduler sim = Some sch0" using ok(1) by auto
    have "\<exists>sch1 sim3. simulation_loop fuel mt 0 (reset_scheduler sch0) (prepare_simulation sim)
        = Some (Some e, sch1, sim3)"
      using res s ok(2)
      by (auto simp add: run_simulation_def Let_def split: option.splits prod.splits)
    then have "policy_error e" using simulation_loop_error by blast
    then show ?thesis by (rule policy_error_not_configuration)
  qed
  show ?thesis using fails only by blast
qed

theorem run_simulation_configuration_error_witness:
  "run_simulation 0 None (MulticoreSchedulerSimulator 2) =
     Some (Inl (ValueError ''No scheduler set. Use set_scheduler() first.''),
           MulticoreSchedulerSimulator 2)
   \<and> (\<exists>e. configuration_error e \<and>
          run_simulation 5 (Some 3) (set_scheduler (Plain FCFSScheduler) (MulticoreSchedulerSimulator 2)) =
            Some (Inl e, set_scheduler (Plain FCFSScheduler) (MulticoreSchedulerSimulator 2)))"
  using run_simulation_configuration_error [of 0 None "MulticoreSchedulerSimulator 2"]
    run_simulation_configuration_error [of 5 "Some 3"
      "set_scheduler (Plain FCFSScheduler) (MulticoreSchedulerSimulator 2)"]
  by (simp add: run_simulation_def MulticoreSchedulerSimulator_def set_scheduler_def)

subsection \<open>Round Robin on several cores\<close>

lemma rr_three_cores_loop:
  "(case simulation_loop 2 None 0
           (reset_scheduler (Plain (RoundRobinScheduler (RoundRobinScheduler_init 4))))
           (prepare_simulation rr_three_cores) of
      Some (None, sch, sim) \<Rightarrow>
        completed_processes sim = [0, 0, 0] \<and> length (all_processes sim) = 2 \<and>
        state (all_processes sim ! 1) = READY \<and> remaining_time (all_processes sim ! 1) = 3 \<and>
        ready_queue sim = [1]
    | _ \<Rightarrow> False)"
  by code_simp

text \<open>
  C2 fails on the code. With Round Robin on three cores and two processes that arrive
  together, \<open>select_process\<close> hands the head of its rotation queue to every idle core,
  although the first core is already running it. The unbounded run then ends with the
  first process three times in the completed list (three entries for two submitted
  processes) while the second process has never run.
\<close>

theorem round_robin_completes_one_process_three_times:
  "(case run_simulation 2 None rr_three_cores of
      Some (Inr m, sim) \<Rightarrow>
        completed_processes sim = [0, 0, 0] \<and> length (all_processes sim) = 2 \<and>
        state (all_processes sim ! 1) = READY \<and> remaining_time (all_processes sim ! 1) = 3 \<and>
        ready_queue sim = [1]
    | _ \<Rightarrow> False)"
proof -
  have S: "scheduler rr_three_cores =
      Some (Plain (RoundRobinScheduler (RoundRobinScheduler_init 4)))"
    by (simp add: rr_three_cores_def add_process_def set_scheduler_def)
  have A: "all_processes rr_three_cores \<noteq> []"
    by (simp add: rr_three_cores_def add_process_def)
  show ?thesis
    using rr_three_cores_loop
    by (simp add: run_simulation_def S A Let_def split: option.splits prod.splits sum.splits)
qed

text \<open>
  C8 fails on the code, by the same defect. After the first core has been given process
  0 and the simulator has removed it from the ready queue, the call for the second core
  with the ready queue holding process 1 only returns process 0 again, which is not an
  element of that queue.
\<close>

theorem round_robin_selects_running_process:
  "fst (select_process
          [(Process 0 0 3 0 MIXED None)\<lparr>state := READY\<rparr>, (Process 1 0 3 0 MIXED None)\<lparr>state := READY\<rparr>]
          (CPUCore 1) [1] 0
          (snd (snd (select_process
             [(Process 0 0 3 0 MIXED None)\<lparr>state := READY\<rparr>, (Process 1 0 3 0 MIXED None)\<lparr>state := READY\<rparr>]
             (CPUCore 0) [0, 1] 0
             (Plain (RoundRobinScheduler (RoundRobinScheduler_init 4)))))))
     = Inr (Some 0)
   \<and> fst (select_process
          [(Process 0 0 3 0 MIXED None)\<lparr>state := READY\<rparr>, (Process 1 0 3 0 MIXED None)\<lparr>state := READY\<rparr>]
          (CPUCore 0) [0, 1] 0
          (Plain (RoundRobinScheduler (RoundRobinScheduler_init 4)))) = Inr (Some 0)
   \<and> 0 \<notin> set [1::nat]"
  by (simp add: rr_select_process_def RoundRobinScheduler_init_def Process_def)

subsection \<open>The engine invariant\<close>

text \<open>
  The timing identities of completed processes rest on an invariant of the main loop,
  established by the reset at the start of a run and preserved by the admission of
  arrivals, the assignment of processes to cores and the execution step.
\<close>

paragraph \<open>Process.execute\<close>

lemma execute_arrival [simp]: "arrival_time (snd (execute ts now c p)) = arrival_time p"
  by (simp add: execute_def execute_track_def execute_start_def execute_finish_def Let_def)

lemma execute_keeps_completion:
  "completion_time p \<noteq> None \<Longrightarrow> completion_time (snd (execute ts now c p)) \<noteq> None"
  by (simp add: execute_def execute_track_def execute_start_def execute_finish_def Let_def)

lemma execute_keeps_start:
  "start_time p \<noteq> None \<Longrightarrow> start_time (snd (execute ts now c p)) \<noteq> None"
  by (simp add: execute_def execute_track_def execute_start_def execute_finish_def Let_def)

lemma execute_process_inv:
  assumes "process_inv p" and "arrival_time p \<le> now"
  shows "process_inv (snd (execute ts now c p))"
proof -
  let ?q = "snd (execute ts now c p)"
  have st: "state ?q = TERMINATED \<or> state ?q = READY"
    by (simp add: execute_state)
  have started: "start_time ?q \<noteq> None"
    using assms(1)
    by (auto simp add: process_inv_def execute_def execute_track_def execute_start_def
        execute_finish_def Let_def)
  have compl: "state ?q = TERMINATED \<Longrightarrow> completion_time ?q \<noteq> None"
    by (simp add: execute_def execute_track_def execute_start_def execute_finish_def Let_def
        split: if_splits)
  have ident: "completion_time ?q = Some d \<Longrightarrow>
      turnaround_time ?q = d - arrival_time ?q \<and> waiting_time ?q = turnaround_time ?q - burst_time ?q"
    for d
    using assms(1)
    by (auto simp add: process_inv_def execute_def execute_track_def execute_start_def
        execute_finish_def Let_def split: if_splits)
  have resp: "start_time ?q = Some s \<Longrightarrow>
      response_time ?q = s - arrival_time ?q \<and> arrival_time ?q \<le> s" for s
    using assms
    by (auto simp add: process_inv_def execute_def execute_track_def execute_start_def
        execute_finish_def Let_def split: if_splits)
  show ?thesis
    unfolding process_inv_def using st started compl ident resp by blast
qed

paragraph \<open>FCFS, SJF\<close>

lemma fcfs_select_mset: "mset (snd (fcfs_select_process st ready)) = mset ready"
  by (simp add: fcfs_select_process_def Let_def)

lemma fcfs_select_in:
  "fst (fcfs_select_process st ready) = Some r \<Longrightarrow> r \<in> set ready"
  by (auto simp add: fcfs_select_process_def Let_def hd_sort_key_in split: if_splits)

lemma sjf_select_mset: "mset (snd (sjf_select_process st ready)) = mset ready"
  by (simp add: sjf_select_process_def Let_def)

lemma sjf_select_in:
  "fst (sjf_select_process st ready) = Some r \<Longrightarrow> r \<in> set ready"
  by (auto simp add: sjf_select_process_def Let_def hd_sort_key_in split: if_splits)

paragraph \<open>Round Robin\<close>

lemma rr_add_new_queue: "set (rr_queue (rr_add_new st rs s)) = set (rr_queue s) \<union> set rs"
  by (induction rs arbitrary: s) auto

lemma rr_select_snd: "snd (rr_select_process st ready s) = rr_add_new st ready s"
  by (simp add: rr_select_process_def Let_def split: list.split)

lemma rr_select_refs:
  "set (rr_queue (snd (rr_select_process st ready s))) = set (rr_queue s) \<union> set ready"
  by (simp add: rr_select_snd rr_add_new_queue)

lemma rr_select_in:
  assumes "fst (rr_select_process st ready s) = Some r"
  shows "r \<in> set (rr_queue s) \<union> set ready"
proof -
  have "r \<in> set (rr_queue (rr_add_new st ready s))"
    using assms by (auto simp add: rr_select_process_def Let_def split: list.splits)
  then show ?thesis by (simp add: rr_add_new_queue)
qed

lemma rr_completion_refs: "set (rr_queue (rr_on_process_completion st r s)) \<subseteq> set (rr_queue s)"
  using set_remove1_subset [of r "rr_queue s"] by (simp add: rr_on_process_completion_def)

lemma rotate_queue_refs: "set (rr_queue (rotate_queue st r s)) \<subseteq> set (rr_queue s)"
  using set_remove1_subset [of r "rr_queue s"] by (auto simp add: rotate_queue_def)

paragraph \<open>Priority\<close>

lemma eval_keys_length: "length (fst (eval_keys f s xs)) = length xs"
proof (induction xs arbitrary: s)
  case Nil
  then show ?case by simp
next
  case (Cons x xs)
  obtain k s1 where f: "f s x = (k, s1)" by (cases "f s x") auto
  obtain ks s2 where e: "eval_keys f s1 xs = (ks, s2)" by (cases "eval_keys f s1 xs") auto
  have "length ks = length xs" using Cons [of s1] e by simp
  then show ?case using f e by simp
qed

lemma sort_by_keys_mset:
  assumes "length ks = length xs"
  shows "mset (sort_by_keys ks xs) = mset xs"
proof -
  have "mset (map snd (sort_key fst (zip ks xs))) = image_mset snd (mset (sort_key fst (zip ks xs)))"
    by simp
  also have "\<dots> = image_mset snd (mset (zip ks xs))" by simp
  also have "\<dots> = mset (map snd (zip ks xs))" by simp
  also have "\<dots> = mset xs" using assms by simp
  finally show ?thesis by (simp add: sort_by_keys_def)
qed

lemma priority_select_mset:
  "mset (fst (snd (priority_select_process st ready now s))) = mset ready"
proof (cases "ready = []")
  case True
  then show ?thesis by (simp add: priority_select_process_def)
next
  case False
  let ?s1 = "if aging s then apply_aging st ready now s else s"
  obtain ks s2 where e: "eval_keys (priority_sort_key st now) ?s1 ready = (ks, s2)"
    by (cases "eval_keys (priority_sort_key st now) ?s1 ready") auto
  have "length ks = length ready" using eval_keys_length [of "priority_sort_key st now" ?s1 ready] e by simp
  then have "mset (sort_by_keys ks ready) = mset ready" by (rule sort_by_keys_mset)
  then show ?thesis using False e by (simp add: priority_select_process_def Let_def)
qed

lemma priority_select_fst:
  "ready \<noteq> [] \<Longrightarrow>
   fst (priority_select_process st ready now s) =
     Some (hd (fst (snd (priority_select_process st ready now s))))"
  by (simp add: priority_select_process_def Let_def split: prod.split)

lemma priority_select_in:
  assumes "fst (priority_select_process st ready now s) = Some r"
  shows "r \<in> set ready"
proof -
  have ne: "ready \<noteq> []" using assms by (auto simp add: priority_select_process_def)
  let ?q = "fst (snd (priority_select_process st ready now s))"
  have m: "mset ?q = mset ready" by (rule priority_select_mset)
  then have "?q \<noteq> []" using ne by (metis mset_zero_iff)
  then have "hd ?q \<in> set ?q" by (rule hd_in_set)
  moreover have "set ?q = set ready" using m by (rule mset_eq_setD)
  moreover have "Some r = Some (hd ?q)"
    using assms priority_select_fst [OF ne, of st now s] by simp
  ultimately show ?thesis by simp
qed

paragraph \<open>Load Balancing\<close>

lemma rebalance_candidates_in:
  "x \<in> set (rebalance_candidates st l s ready) \<Longrightarrow> fst x \<in> set ready"
  by (induction ready) (auto simp add: Let_def split: option.splits if_splits)

lemma try_rebalance_in:
  assumes "fst (try_rebalance st core ready s) = Some r"
  shows "r \<in> set ready"
proof -
  let ?c = "rebalance_candidates st (get_load core) s ready"
  have ne: "?c \<noteq> []" using assms by (auto simp add: try_rebalance_def Let_def)
  then have "hd (sort_key (\<lambda>x. - fst (snd x)) ?c) \<in> set ?c" by (rule hd_sort_key_in)
  then have "fst (hd (sort_key (\<lambda>x. - fst (snd x)) ?c)) \<in> set ready"
    by (rule rebalance_candidates_in)
  moreover have "r = fst (hd (sort_key (\<lambda>x. - fst (snd x)) ?c))"
    using assms ne by (simp add: try_rebalance_def Let_def split: prod.splits)
  ultimately show ?thesis by simp
qed

lemma lb_select_in:
  assumes "fst (lb_select_process st core ready s) = Some r"
  shows "r \<in> set ready"
proof -
  let ?as = "filter (\<lambda>r. process_assignments s (pid (st ! r)) = Some (core_id core)) ready"
  let ?un = "filter (\<lambda>r. process_assignments s (pid (st ! r)) = None) ready"
  let ?k = "\<lambda>r. (remaining_time (st ! r), arrival_time (st ! r))"
  have ne: "ready \<noteq> []" using assms by (auto simp add: lb_select_process_def)
  show ?thesis
  proof (cases "?as \<noteq> []")
    case True
    then have "hd (sort_key ?k ?as) \<in> set ?as" by (rule hd_sort_key_in)
    moreover have "r = hd (sort_key ?k ?as)"
      using assms ne True by (simp add: lb_select_process_def Let_def)
    ultimately show ?thesis by simp
  next
    case False
    show ?thesis
    proof (cases "?un \<noteq> []")
      case True
      then have "hd (sort_key ?k ?un) \<in> set ?un" by (rule hd_sort_key_in)
      moreover have "r = hd (sort_key ?k ?un)"
        using assms ne True False by (simp add: lb_select_process_def Let_def)
      ultimately show ?thesis by simp
    next
      case un: False
      have "fst (try_rebalance st core ready s) = Some r"
        using assms ne False un by (simp add: lb_select_process_def Let_def)
      then show ?thesis by (rule try_rebalance_in)
    qed
  qed
qed

paragraph \<open>Work Stealing\<close>


lemma queue_refs_update: "queue_refs (qs[i := q]) \<subseteq> set q \<union> queue_refs qs"
proof -
  have "set (qs[i := q]) \<subseteq> insert q (set qs)" by (rule set_update_subset_insert)
  then show ?thesis unfolding queue_refs_def by auto
qed

lemma queue_refs_nth: "i < length qs \<Longrightarrow> set (qs ! i) \<subseteq> queue_refs qs"
  unfolding queue_refs_def using nth_mem by blast

lemma distribute_refs:
  "queue_refs (core_queues (snd (distribute st gq s))) \<union> set (global_queue (snd (distribute st gq s)))
     \<subseteq> queue_refs (core_queues s) \<union> set gq"
proof (induction gq arbitrary: s)
  case Nil
  then show ?case by simp
next
  case (Cons r rs)
  show ?case
  proof (cases "core_queues s = []")
    case True
    then show ?thesis by simp
  next
    case False
    let ?c = "arg_min_list (\<lambda>c. length (core_queues s ! c)) [0..<length (core_queues s)]"
    let ?s1 = "s\<lparr>core_queues := (core_queues s)[?c := core_queues s ! ?c @ [r]],
                 process_core_map := (process_core_map s)(pid (st ! r) \<mapsto> ?c)\<rparr>"
    have "[0..<length (core_queues s)] \<noteq> []" using False by simp
    then have "?c \<in> set [0..<length (core_queues s)]" by (rule arg_min_list_in)
    then have lt: "?c < length (core_queues s)" by simp
    have "queue_refs (core_queues ?s1) \<subseteq> set (core_queues s ! ?c @ [r]) \<union> queue_refs (core_queues s)"
      using queue_refs_update [of "core_queues s" ?c "core_queues s ! ?c @ [r]"] by simp
    moreover have "set (core_queues s ! ?c) \<subseteq> queue_refs (core_queues s)"
      using lt by (rule queue_refs_nth)
    ultimately have step: "queue_refs (core_queues ?s1) \<subseteq> insert r (queue_refs (core_queues s))"
      by auto
    have "distribute st (r # rs) s = distribute st rs ?s1"
      using False by (simp add: Let_def)
    then show ?thesis using Cons [of ?s1] step by auto
  qed
qed

lemma distribute_new_refs:
  "ws_refs ((snd (distribute_new_processes st ready s)))
     \<subseteq> ws_refs s \<union> set ready"
proof -
  let ?new = "filter (\<lambda>r. process_core_map s (pid (st ! r)) = None \<and> r \<notin> set (global_queue s)) ready"
  have "snd (distribute_new_processes st ready s) = snd (distribute st (global_queue s @ ?new) s)"
    by (simp add: distribute_new_processes_def Let_def)
  then show ?thesis
    using distribute_refs [of st "global_queue s @ ?new" s]
    unfolding ws_refs_def by auto
qed

lemma shuffle_mset: "k \<le> length xs \<Longrightarrow> mset (shuffle rnd t k xs) = mset xs"
proof (induction k arbitrary: t xs)
  case 0
  then show ?case by simp
next
  case (Suc k)
  show ?case
  proof (cases "k = 0")
    case True
    then show ?thesis by simp
  next
    case False
    let ?j = "rnd t mod Suc k"
    have k: "k < length xs" using Suc.prems by simp
    have j: "?j < length xs" using k by (meson less_Suc_eq_le mod_less_divisor order_le_less_trans zero_less_Suc)
    have sw: "mset (xs[k := xs ! ?j, ?j := xs ! k]) = mset xs" using mset_swap [OF j k] by simp
    have "mset (shuffle rnd (Suc t) k (xs[k := xs ! ?j, ?j := xs ! k])) = mset (xs[k := xs ! ?j, ?j := xs ! k])"
      using Suc.IH [of "xs[k := xs ! ?j, ?j := xs ! k]" "Suc t"] k by simp
    then show ?thesis using False sw by (simp add: Let_def)
  qed
qed

lemma best_victim_in:
  "fst (best_victim qs vs (b, m)) = Some v \<Longrightarrow> v \<in> set vs \<or> b = Some v"
  by (induction vs arbitrary: b m) (auto simp add: Let_def split: if_splits)

lemma ws_refs_draws [simp]: "ws_refs (s\<lparr>draws_taken := n\<rparr>) = ws_refs s"
  by (simp add: ws_refs_def)

lemma steal_work_refs:
  "ws_refs ((snd (steal_work st t s))) \<subseteq> ws_refs s
   \<and> (\<forall>r. fst (steal_work st t s) = Some r \<longrightarrow> r \<in> ws_refs s)"
proof -
  let ?pv = "filter (\<lambda>i. i \<noteq> t) [0..<length (core_queues s)]"
  let ?sh = "shuffle (random_source s) (draws_taken s) (length ?pv) ?pv"
  let ?s1 = "s\<lparr>draws_taken := draws_taken s + (length ?pv - 1)\<rparr>"
  let ?bv = "fst (best_victim (core_queues ?s1) (take (steal_attempts s) ?sh) (None, 0))"
  show ?thesis
  proof (cases "?pv = []")
    case True
    then show ?thesis by (simp add: steal_work_def)
  next
    case False
    show ?thesis
    proof (cases ?bv)
      case None
      then show ?thesis using False by (simp add: steal_work_def Let_def)
    next
      case (Some v)
      then have "v \<in> set (take (steal_attempts s) ?sh)" using best_victim_in by fastforce
      then have "v \<in> set ?sh" by (rule in_set_takeD)
      moreover have "set ?sh = set ?pv" using shuffle_mset [of "length ?pv" ?pv] by (metis mset_eq_setD order_refl)
      ultimately have v: "v < length (core_queues s)" by simp
      show ?thesis
      proof (cases "length (core_queues s ! v) \<ge> 2")
        case False
        then show ?thesis using \<open>?pv \<noteq> []\<close> Some by (simp add: steal_work_def Let_def)
      next
        case True
        let ?q = "core_queues s ! v"
        have ne: "?q \<noteq> []" using True by auto
        have qsub: "set ?q \<subseteq> queue_refs (core_queues s)" using v by (rule queue_refs_nth)
        have res: "steal_work st t s =
          (Some (last ?q),
           ?s1\<lparr>core_queues := (core_queues s)[v := butlast ?q],
               process_core_map := (process_core_map s)(pid (st ! last ?q) \<mapsto> t)\<rparr>)"
          using \<open>?pv \<noteq> []\<close> Some True by (simp add: steal_work_def Let_def)
        have "queue_refs ((core_queues s)[v := butlast ?q]) \<subseteq> set (butlast ?q) \<union> queue_refs (core_queues s)"
          by (rule queue_refs_update)
        moreover have "set (butlast ?q) \<subseteq> set ?q" by (auto dest: in_set_butlastD)
        ultimately have a: "queue_refs ((core_queues s)[v := butlast ?q]) \<subseteq> queue_refs (core_queues s)"
          using qsub by auto
        have b: "last ?q \<in> queue_refs (core_queues s)" using ne qsub by auto
        show ?thesis using a b unfolding res ws_refs_def by auto
      qed
    qed
  qed
qed

lemma ws_select_refs:
  "ws_refs ((snd (ws_select_process st core ready s)))
     \<subseteq> ws_refs s \<union> set ready
   \<and> (\<forall>r. fst (ws_select_process st core ready s) = Inr (Some r)
        \<longrightarrow> r \<in> ws_refs s \<union> set ready)"
proof -
  obtain e s1 where d: "distribute_new_processes st ready s = (e, s1)"
    by (cases "distribute_new_processes st ready s") auto
  have s1: "ws_refs s1 \<subseteq> ws_refs s \<union> set ready"
    using distribute_new_refs [of st ready s] d by simp
  show ?thesis
  proof (cases e)
    case (Some err)
    then show ?thesis using d s1 by (simp add: ws_select_process_def)
  next
    case None
    show ?thesis
    proof (cases "core_id core \<ge> length (core_queues s1)")
      case True
      then show ?thesis using d None s1 by (simp add: ws_select_process_def)
    next
      case False
      then have lt: "core_id core < length (core_queues s1)" by simp
      have qsub: "set (core_queues s1 ! core_id core) \<subseteq> queue_refs (core_queues s1)"
        using lt by (rule queue_refs_nth)
      show ?thesis
      proof (cases "core_queues s1 ! core_id core")
        case Nil
        obtain res s2 where sw: "steal_work st (core_id core) s1 = (res, s2)"
          by (cases "steal_work st (core_id core) s1") auto
        have r: "ws_select_process st core ready s = (Inr res, s2)"
          using d None False Nil sw by (simp add: ws_select_process_def)
        show ?thesis using steal_work_refs [of st "core_id core" s1] sw s1 unfolding r by auto
      next
        case (Cons r rest)
        have res: "ws_select_process st core ready s =
            (Inr (Some r), s1\<lparr>core_queues := (core_queues s1)[core_id core := rest]\<rparr>)"
          using d None False Cons by (simp add: ws_select_process_def)
        have "queue_refs ((core_queues s1)[core_id core := rest]) \<subseteq> set rest \<union> queue_refs (core_queues s1)"
          by (rule queue_refs_update)
        then have a: "queue_refs ((core_queues s1)[core_id core := rest]) \<subseteq> queue_refs (core_queues s1)"
          using qsub Cons by auto
        have b: "r \<in> queue_refs (core_queues s1)" using qsub Cons by auto
        show ?thesis using a b s1 unfolding res ws_refs_def by auto
      qed
    qed
  qed
qed

lemma ws_completion_refs:
  "ws_refs ((ws_on_process_completion st r s))
     \<subseteq> ws_refs s"
proof -
  have "queue_refs (map (remove1 r) (core_queues s)) \<subseteq> queue_refs (core_queues s)"
    unfolding queue_refs_def using set_remove1_subset by fastforce
  then show ?thesis unfolding ws_refs_def by (auto simp add: ws_on_process_completion_def)
qed

lemma ws_reset_refs: "ws_refs ((ws_reset s)) = {}"
  by (simp add: ws_reset_def ws_refs_def queue_refs_def)

paragraph \<open>The policy interface\<close>

lemma policy_select_mset:
  "mset (fst (snd (policy_select_process st core ready now pol))) = mset ready"
proof (cases pol)
  case FCFSScheduler
  then show ?thesis using fcfs_select_mset [of st ready] by (simp add: case_prod_beta)
next
  case (SJFScheduler b)
  then show ?thesis using sjf_select_mset [of st ready] by (simp add: case_prod_beta)
next
  case (PriorityScheduler s)
  then show ?thesis using priority_select_mset [of st ready now s] by (simp add: case_prod_beta)
qed (simp_all add: case_prod_beta)

lemma policy_select_refs:
  "policy_refs (snd (snd (policy_select_process st core ready now pol)))
     \<subseteq> policy_refs pol \<union> set ready"
proof (cases pol)
  case (RoundRobinScheduler s)
  then show ?thesis using rr_select_refs [of st ready s] by (simp add: case_prod_beta)
next
  case (WorkStealingScheduler s)
  then show ?thesis using ws_select_refs [of st core ready s] by (simp add: case_prod_beta)
qed (simp_all add: case_prod_beta)

lemma policy_select_in:
  assumes "fst (policy_select_process st core ready now pol) = Inr (Some r)"
  shows "r \<in> policy_refs pol \<union> set ready"
proof (cases pol)
  case FCFSScheduler
  then show ?thesis using assms fcfs_select_in [of st ready r] by (simp add: case_prod_beta)
next
  case (SJFScheduler b)
  then show ?thesis using assms sjf_select_in [of st ready r] by (simp add: case_prod_beta)
next
  case (RoundRobinScheduler s)
  then show ?thesis using assms rr_select_in [of st ready s r] by (simp add: case_prod_beta)
next
  case (PriorityScheduler s)
  then show ?thesis using assms priority_select_in [of st ready now s r] by (simp add: case_prod_beta)
next
  case (LoadBalancingScheduler s)
  then show ?thesis using assms lb_select_in [of st core ready s r] by (simp add: case_prod_beta)
next
  case (WorkStealingScheduler s)
  then show ?thesis using assms ws_select_refs [of st core ready s] by (simp add: case_prod_beta)
qed

lemma policy_should_preempt_refs:
  "policy_refs (snd (policy_should_preempt st cur ready now pol)) = policy_refs pol"
  by (cases pol) (simp_all add: case_prod_beta)

lemma policy_arrival_refs:
  "policy_refs (policy_on_process_arrival st r now pol) = policy_refs pol"
  by (cases pol) simp_all

lemma policy_completion_refs:
  "policy_refs (policy_on_process_completion st r now pol) \<subseteq> policy_refs pol"
proof (cases pol)
  case (RoundRobinScheduler s)
  then show ?thesis using rr_completion_refs [of st r s] by simp
next
  case (WorkStealingScheduler s)
  then show ?thesis using ws_completion_refs [of st r s] by simp
qed simp_all

lemma policy_reset_refs: "policy_refs (policy_reset pol) = {}"
  by (cases pol) (simp_all add: ws_reset_refs)

paragraph \<open>The scheduler\<close>

lemma adaptive_refs_update:
  "(\<Union>a. policy_refs ((f(n := p)) a)) \<subseteq> policy_refs p \<union> (\<Union>a. policy_refs (f a))"
  by (auto split: if_splits)

lemma adaptive_refs_member: "policy_refs (f n) \<subseteq> (\<Union>a. policy_refs (f a))"
  by auto

lemma adapt_scheduler_schedulers:
  "adapt_scheduler st ready s = Inr s1 \<Longrightarrow> schedulers s1 = schedulers s"
  by (auto simp add: adapt_scheduler_def Let_def split: sum.splits if_splits)

lemma adaptive_select_cases:
  obtains (error) e where "adaptive_select_process st core ready now s = (Inl e, ready, s)"
  | (delegated) s1 where "schedulers s1 = schedulers s"
      and "adaptive_select_process st core ready now s =
        (case policy_select_process st core ready now (schedulers s1 (current_scheduler_name s1)) of
           (res, ready1, pol) \<Rightarrow>
             (res, ready1, s1\<lparr>schedulers := (schedulers s1)(current_scheduler_name s1 := pol)\<rparr>))"
proof -
  let ?pre = "(if now - last_adaptation_time s \<ge> adaptation_interval s
            then (case adapt_scheduler st ready s of
                    Inl e \<Rightarrow> Inl e
                  | Inr s1 \<Rightarrow> Inr (s1\<lparr>last_adaptation_time := now\<rparr>))
            else Inr s)"
  show ?thesis
  proof (cases ?pre)
    case (Inl e)
    then have "adaptive_select_process st core ready now s = (Inl e, ready, s)"
      by (simp add: adaptive_select_process_def)
    then show ?thesis by (rule error)
  next
    case (Inr s1)
    have "schedulers s1 = schedulers s"
      using Inr adapt_scheduler_schedulers [of st ready s]
      by (auto split: if_splits sum.splits)
    moreover have "adaptive_select_process st core ready now s =
        (case policy_select_process st core ready now (schedulers s1 (current_scheduler_name s1)) of
           (res, ready1, pol) \<Rightarrow>
             (res, ready1, s1\<lparr>schedulers := (schedulers s1)(current_scheduler_name s1 := pol)\<rparr>))"
      using Inr by (simp add: adaptive_select_process_def)
    ultimately show ?thesis by (rule delegated)
  qed
qed

lemma select_process_mset:
  "mset (fst (snd (select_process st core ready now sch))) = mset ready"
proof (cases sch)
  case (Plain pol)
  then show ?thesis using policy_select_mset [of st core ready now pol] by (simp add: case_prod_beta)
next
  case (AdaptiveScheduler s)
  show ?thesis
  proof (cases rule: adaptive_select_cases [of st core ready now s])
    case (error e)
    then show ?thesis using AdaptiveScheduler by simp
  next
    case (delegated s1)
    then show ?thesis
      using AdaptiveScheduler
        policy_select_mset [of st core ready now "schedulers s1 (current_scheduler_name s1)"]
      by (simp add: case_prod_beta)
  qed
qed

lemma select_process_refs:
  "scheduler_refs (snd (snd (select_process st core ready now sch)))
     \<subseteq> scheduler_refs sch \<union> set ready"
proof (cases sch)
  case (Plain pol)
  then show ?thesis using policy_select_refs [of st core ready now pol] by (simp add: case_prod_beta)
next
  case (AdaptiveScheduler s)
  show ?thesis
  proof (cases rule: adaptive_select_cases [of st core ready now s])
    case (error e)
    then show ?thesis using AdaptiveScheduler by simp
  next
    case (delegated s1)
    let ?n = "current_scheduler_name s1"
    let ?r = "policy_select_process st core ready now (schedulers s ?n)"
    have a: "policy_refs (snd (snd ?r)) \<subseteq> policy_refs (schedulers s ?n) \<union> set ready"
      by (rule policy_select_refs)
    have b: "policy_refs (schedulers s ?n) \<subseteq> (\<Union>a. policy_refs (schedulers s a))"
      by (rule adaptive_refs_member)
    have c: "(\<Union>a. policy_refs (((schedulers s)(?n := snd (snd ?r))) a))
        \<subseteq> policy_refs (snd (snd ?r)) \<union> (\<Union>a. policy_refs (schedulers s a))"
      by (rule adaptive_refs_update)
    have eq: "scheduler_refs (snd (snd (select_process st core ready now sch)))
        = (\<Union>a. policy_refs (((schedulers s)(?n := snd (snd ?r))) a))"
      using AdaptiveScheduler delegated by (simp add: case_prod_beta)
    have d: "scheduler_refs sch = (\<Union>a. policy_refs (schedulers s a))"
      using AdaptiveScheduler by simp
    have "(\<Union>a. policy_refs (((schedulers s)(?n := snd (snd ?r))) a))
        \<subseteq> (\<Union>a. policy_refs (schedulers s a)) \<union> set ready"
      using a b c by blast
    then show ?thesis by (simp only: eq d)
  qed
qed

lemma select_process_in:
  assumes "fst (select_process st core ready now sch) = Inr (Some r)"
  shows "r \<in> scheduler_refs sch \<union> set ready"
proof (cases sch)
  case (Plain pol)
  then show ?thesis using assms policy_select_in [of st core ready now pol r] by (simp add: case_prod_beta)
next
  case (AdaptiveScheduler s)
  show ?thesis
  proof (cases rule: adaptive_select_cases [of st core ready now s])
    case (error e)
    then show ?thesis using AdaptiveScheduler assms by simp
  next
    case (delegated s1)
    let ?n = "current_scheduler_name s1"
    have "fst (policy_select_process st core ready now (schedulers s ?n)) = Inr (Some r)"
      using AdaptiveScheduler delegated assms by (simp add: case_prod_beta)
    then have "r \<in> policy_refs (schedulers s ?n) \<union> set ready" by (rule policy_select_in)
    then show ?thesis using AdaptiveScheduler adaptive_refs_member [of "schedulers s" ?n] by auto
  qed
qed

lemma should_preempt_refs:
  "scheduler_refs (snd (should_preempt st cur ready now sch)) = scheduler_refs sch"
proof (cases sch)
  case (Plain pol)
  then show ?thesis using policy_should_preempt_refs [of st cur ready now pol] by (simp add: case_prod_beta)
next
  case (AdaptiveScheduler s)
  let ?n = "current_scheduler_name s"
  let ?p = "snd (policy_should_preempt st cur ready now (schedulers s ?n))"
  have "policy_refs (((schedulers s)(?n := ?p)) a) = policy_refs (schedulers s a)" for a
    using policy_should_preempt_refs [of st cur ready now "schedulers s ?n"] by simp
  then show ?thesis using AdaptiveScheduler by (simp add: case_prod_beta)
qed

lemma on_arrival_refs:
  "scheduler_refs (on_process_arrival st r now sch) = scheduler_refs sch"
proof (cases sch)
  case (Plain pol)
  then show ?thesis by (simp add: policy_arrival_refs)
next
  case (AdaptiveScheduler s)
  let ?n = "current_scheduler_name s"
  have "policy_refs (((schedulers s)(?n := policy_on_process_arrival st r now (schedulers s ?n))) a)
      = policy_refs (schedulers s a)" for a
    by (simp add: policy_arrival_refs)
  then show ?thesis using AdaptiveScheduler by simp
qed

lemma on_completion_refs:
  "scheduler_refs (on_process_completion st r now sch) \<subseteq> scheduler_refs sch"
proof (cases sch)
  case (Plain pol)
  then show ?thesis by (simp add: policy_completion_refs)
next
  case (AdaptiveScheduler s)
  have "\<exists>n. schedulers (adaptive_on_process_completion st r now s)
      = (schedulers s)(n := policy_on_process_completion st r now (schedulers s n))"
    by (auto simp add: adaptive_on_process_completion_def Let_def)
  then obtain n where e: "schedulers (adaptive_on_process_completion st r now s)
      = (schedulers s)(n := policy_on_process_completion st r now (schedulers s n))" by blast
  have "policy_refs (((schedulers s)(n := policy_on_process_completion st r now (schedulers s n))) a)
      \<subseteq> policy_refs (schedulers s a)" for a
    using policy_completion_refs [of st r now "schedulers s n"] by simp
  then show ?thesis using AdaptiveScheduler e by auto
qed

lemma rotate_refs: "scheduler_refs (rotate_if_supported st r sch) \<subseteq> scheduler_refs sch"
proof (cases sch)
  case (Plain pol)
  then show ?thesis using rotate_queue_refs by (cases pol) simp_all
next
  case (AdaptiveScheduler s)
  then show ?thesis by simp
qed

lemma reset_scheduler_refs: "scheduler_refs (reset_scheduler sch) = {}"
  by (cases sch) (simp_all add: policy_reset_refs adaptive_reset_def)

paragraph \<open>Updates that keep the parts of the invariant\<close>

lemma store_ok_update:
  "store_ok st \<Longrightarrow> process_inv p \<Longrightarrow> store_ok (st[r := p])"
  unfolding store_ok_def using set_update_subset_insert [of st r p] by auto

lemma store_ok_nth: "store_ok st \<Longrightarrow> r < length st \<Longrightarrow> process_inv (st ! r)"
  unfolding store_ok_def by simp

lemma arrived_update:
  assumes "arrived idx st now" and "arrival_time p = arrival_time (st ! r)"
  shows "arrived idx (st[r := p]) now"
proof -
  have len: "idx \<le> length st" and arr: "\<forall>i<idx. arrival_time (st ! i) \<le> now"
    using assms(1) unfolding arrived_def by simp_all
  have "arrival_time (st[r := p] ! i) \<le> now" if "i < idx" for i
  proof (cases "i = r")
    case True
    then have "st[r := p] ! i = p" using that len by simp
    then show ?thesis using assms(2) arr that True by simp
  next
    case False
    then show ?thesis using arr that by simp
  qed
  then show ?thesis unfolding arrived_def using len by simp
qed

lemma arrivals_update:
  assumes "arrival_time p = arrival_time (st ! r)"
  shows "map arrival_time (st[r := p]) = map arrival_time st"
proof (cases "r < length st")
  case True
  have "map arrival_time (st[r := p]) = (map arrival_time st)[r := map arrival_time st ! r]"
    using assms True by (simp add: map_update)
  then show ?thesis by simp
next
  case False
  then have "st[r := p] = st" by (simp add: list_update_beyond)
  then show ?thesis by simp
qed

lemma arrived_later: "arrived idx st now \<Longrightarrow> now \<le> t \<Longrightarrow> arrived idx st t"
  unfolding arrived_def by fastforce

lemma arrived_nth: "arrived idx st now \<Longrightarrow> r < idx \<Longrightarrow> r < length st \<and> arrival_time (st ! r) \<le> now"
  unfolding arrived_def by simp

lemma cores_ok_update:
  assumes "cores_ok idx cs" and "\<forall>r. current_process c = Some r \<longrightarrow> r < idx"
  shows "cores_ok idx (cs[i := c])"
  using assms set_update_subset_insert [of cs i c] unfolding cores_ok_def by blast

lemma cores_ok_nth:
  "cores_ok idx cs \<Longrightarrow> i < length cs \<Longrightarrow> current_process (cs ! i) = Some r \<Longrightarrow> r < idx"
  unfolding cores_ok_def using nth_mem by blast

lemma cores_ok_mono: "cores_ok idx cs \<Longrightarrow> idx \<le> idx' \<Longrightarrow> cores_ok idx' cs"
  unfolding cores_ok_def by fastforce

lemma done_ok_update:
  assumes "done_ok st cp"
    and "completion_time (st ! r) \<noteq> None \<longrightarrow> completion_time p \<noteq> None"
    and "start_time (st ! r) \<noteq> None \<longrightarrow> start_time p \<noteq> None"
  shows "done_ok (st[r := p]) cp"
proof -
  have "q < length (st[r := p]) \<and> completion_time (st[r := p] ! q) \<noteq> None \<and>
      start_time (st[r := p] ! q) \<noteq> None" if "q \<in> set cp" for q
  proof -
    have q: "q < length st" "completion_time (st ! q) \<noteq> None" "start_time (st ! q) \<noteq> None"
      using assms(1) that unfolding done_ok_def by simp_all
    show ?thesis
    proof (cases "q = r")
      case True
      then have "st[r := p] ! q = p" using q(1) by simp
      then show ?thesis using q assms(2,3) True by simp
    next
      case False
      then show ?thesis using q by simp
    qed
  qed
  then show ?thesis unfolding done_ok_def by blast
qed

lemma done_ok_append:
  assumes "done_ok st cp" and "r < length st"
    and "completion_time (st ! r) \<noteq> None" and "start_time (st ! r) \<noteq> None"
  shows "done_ok st (cp @ [r])"
  using assms unfolding done_ok_def by auto

paragraph \<open>The core operations\<close>

lemma preempt_result:
  "current_process c = Some r \<Longrightarrow>
   fst (preempt_current_process now c) = Some r \<and>
   current_process (snd (preempt_current_process now c)) = None"
  by (simp add: preempt_current_process_def)

lemma preempt_none:
  "current_process c = None \<Longrightarrow> preempt_current_process now c = (None, c)"
  by (simp add: preempt_current_process_def)

lemma assign_process_current: "current_process (assign_process r now st c) = Some r"
  by (simp add: assign_process_def Let_def split: option.split)

lemma execute_current_result:
  assumes "current_process c = Some r"
  shows "\<exists>a c1. execute_current_process ts now st c
           = (Some a, st[r := snd (execute ts now (core_id c) (st ! r))], c1) \<and>
         (current_process c1 = Some r \<or> current_process c1 = None) \<and>
         (\<not> is_completed (snd (execute ts now (core_id c) (st ! r))) \<longrightarrow>
            current_process c1 = Some r)"
  using assms
  by (simp add: execute_current_process_def Let_def case_prod_beta)

lemma engine_invD:
  assumes "engine_inv idx sch sim"
  shows "store_ok (all_processes sim)"
    and "arrived idx (all_processes sim) (current_time sim)"
    and "set (ready_queue sim) \<subseteq> {..<idx}"
    and "cores_ok idx (cores sim)"
    and "scheduler_refs sch \<subseteq> {..<idx}"
    and "done_ok (all_processes sim) (completed_processes sim)"
  using assms unfolding engine_inv_def by simp_all

lemma engine_invI:
  assumes "store_ok (all_processes sim)"
    and "arrived idx (all_processes sim) (current_time sim)"
    and "set (ready_queue sim) \<subseteq> {..<idx}"
    and "cores_ok idx (cores sim)"
    and "scheduler_refs sch \<subseteq> {..<idx}"
    and "done_ok (all_processes sim) (completed_processes sim)"
  shows "engine_inv idx sch sim"
  using assms unfolding engine_inv_def by simp

declare admit_arrivals.simps [simp del]

paragraph \<open>Preparation\<close>

lemma reset_process_inv: "process_inv (reset_process p)"
  by (simp add: process_inv_def reset_process_def)

lemma prepare_inv: "engine_inv 0 (reset_scheduler sch0) (prepare_simulation sim)"
proof (rule engine_invI)
  show "store_ok (all_processes (prepare_simulation sim))"
    by (auto simp add: store_ok_def prepare_simulation_def reset_simulation_def Let_def
        reset_process_inv)
  show "arrived 0 (all_processes (prepare_simulation sim)) (current_time (prepare_simulation sim))"
    by (simp add: arrived_def)
  show "set (ready_queue (prepare_simulation sim)) \<subseteq> {..<0}"
    by (simp add: prepare_simulation_def reset_simulation_def Let_def)
  show "cores_ok 0 (cores (prepare_simulation sim))"
    by (auto simp add: cores_ok_def prepare_simulation_def reset_simulation_def Let_def
        reset_core_def)
  show "scheduler_refs (reset_scheduler sch0) \<subseteq> {..<0}"
    by (simp add: reset_scheduler_refs)
  show "done_ok (all_processes (prepare_simulation sim)) (completed_processes (prepare_simulation sim))"
    by (simp add: done_ok_def prepare_simulation_def reset_simulation_def Let_def)
qed

paragraph \<open>Admission\<close>

lemma admit_step_inv:
  assumes inv: "engine_inv idx sch sim"
    and lt: "idx < length (all_processes sim)"
    and arr: "arrival_time (all_processes sim ! idx) \<le> current_time sim"
  shows "engine_inv (idx + 1)
           (on_process_arrival
              ((all_processes sim)[idx := (all_processes sim ! idx)\<lparr>state := READY\<rparr>])
              idx (current_time sim) sch)
           (sim\<lparr>all_processes := (all_processes sim)[idx := (all_processes sim ! idx)\<lparr>state := READY\<rparr>],
                ready_queue := ready_queue sim @ [idx]\<rparr>)"
proof -
  let ?st = "all_processes sim"
  let ?p = "(?st ! idx)\<lparr>state := READY\<rparr>"
  note I = engine_invD [OF inv]
  have pinv: "process_inv ?p"
    using store_ok_nth [OF I(1) lt] by (simp add: process_inv_def)
  have a1: "store_ok (?st[idx := ?p])" using I(1) pinv by (rule store_ok_update)
  have a2': "arrived idx (?st[idx := ?p]) (current_time sim)"
    using I(2) by (rule arrived_update) simp
  have a2: "arrived (Suc idx) (?st[idx := ?p]) (current_time sim)"
  proof -
    have "arrival_time (?st[idx := ?p] ! i) \<le> current_time sim" if "i < Suc idx" for i
    proof (cases "i = idx")
      case True
      then show ?thesis using lt arr by simp
    next
      case False
      then have "i < idx" using that by simp
      then show ?thesis using a2' unfolding arrived_def by simp
    qed
    then show ?thesis unfolding arrived_def using lt by simp
  qed
  have a3: "set (ready_queue sim) \<subseteq> {..<Suc idx}" using I(3) by auto
  have a4: "cores_ok (Suc idx) (cores sim)" using I(4) by (rule cores_ok_mono) simp
  have a5: "scheduler_refs (on_process_arrival (?st[idx := ?p]) idx (current_time sim) sch)
      \<subseteq> {..<Suc idx}"
    using I(5) by (auto simp add: on_arrival_refs)
  have a6: "done_ok (?st[idx := ?p]) (completed_processes sim)"
    using I(6) by (rule done_ok_update) simp_all
  show ?thesis
    by (rule engine_invI) (simp_all add: a1 a2 a3 a4 a5 a6)
qed

lemma admit_inv:
  "engine_inv idx sch sim \<Longrightarrow>
   engine_inv (fst (admit_arrivals idx sch sim)) (fst (snd (admit_arrivals idx sch sim)))
     (snd (snd (admit_arrivals idx sch sim))) \<and>
   current_time (snd (snd (admit_arrivals idx sch sim))) = current_time sim \<and>
   cores (snd (snd (admit_arrivals idx sch sim))) = cores sim \<and>
   (fst (admit_arrivals idx sch sim) < length (all_processes (snd (snd (admit_arrivals idx sch sim))))
      \<longrightarrow> current_time sim
            < arrival_time (all_processes (snd (snd (admit_arrivals idx sch sim)))
                 ! fst (admit_arrivals idx sch sim)))"
proof (induction idx sch sim rule: admit_arrivals.induct)
  case (1 idx sch sim)
  let ?st = "(all_processes sim)[idx := (all_processes sim ! idx)\<lparr>state := READY\<rparr>]"
  let ?sch1 = "on_process_arrival ?st idx (current_time sim) sch"
  let ?sim1 = "sim\<lparr>all_processes := ?st, ready_queue := ready_queue sim @ [idx]\<rparr>"
  show ?case
  proof (cases "idx < length (all_processes sim)
      \<and> arrival_time (all_processes sim ! idx) \<le> current_time sim")
    case True
    have eq: "admit_arrivals idx sch sim = admit_arrivals (idx + 1) ?sch1 ?sim1"
      by (subst admit_arrivals.simps, subst if_P [OF True], simp only: Let_def)
    have "engine_inv (idx + 1) ?sch1 ?sim1"
      using "1.prems" True by (intro admit_step_inv) simp_all
    then show ?thesis
      using "1.IH" [OF True refl] unfolding eq by simp
  next
    case False
    have eq: "admit_arrivals idx sch sim = (idx, sch, sim)"
      by (subst admit_arrivals.simps, subst if_not_P [OF False], rule refl)
    show ?thesis using "1.prems" False unfolding eq by auto
  qed
qed

paragraph \<open>Assignment\<close>

lemma assign_core_inv:
  assumes inv: "engine_inv idx sch sim" and i: "i < length (cores sim)"
  shows "engine_inv idx (fst (snd (assign_core i sch sim))) (snd (snd (assign_core i sch sim))) \<and>
         length (cores (snd (snd (assign_core i sch sim)))) = length (cores sim) \<and>
         current_time (snd (snd (assign_core i sch sim))) = current_time sim \<and>
         all_processes (snd (snd (assign_core i sch sim))) = all_processes sim"
proof -
  note I = engine_invD [OF inv]
  let ?core = "cores sim ! i"
  let ?sel = "select_process (all_processes sim) ?core (ready_queue sim) (current_time sim) sch"
  show ?thesis
  proof (cases "is_idle ?core \<and> ready_queue sim \<noteq> []")
    case False
    then have "assign_core i sch sim = (None, sch, sim)" by (auto simp add: assign_core_def Let_def)
    then show ?thesis using inv by simp
  next
    case True
    obtain res ready1 sch1 where sel: "?sel = (res, ready1, sch1)" by (cases ?sel) auto
    have m: "mset ready1 = mset (ready_queue sim)"
      using select_process_mset [of "all_processes sim" ?core "ready_queue sim" "current_time sim" sch] sel
      by simp
    then have r1: "set ready1 \<subseteq> {..<idx}" using I(3) by (metis mset_eq_setD)
    have "scheduler_refs sch1 \<subseteq> scheduler_refs sch \<union> set (ready_queue sim)"
      using select_process_refs [of "all_processes sim" ?core "ready_queue sim" "current_time sim" sch] sel
      by simp
    then have s1: "scheduler_refs sch1 \<subseteq> {..<idx}" using I(3,5) by blast
    have base: "engine_inv idx sch1 (sim\<lparr>ready_queue := ready1\<rparr>)"
      by (rule engine_invI) (simp_all add: I r1 s1)
    show ?thesis
    proof (cases res)
      case (Inl e)
      then have "assign_core i sch sim = (Some e, sch1, sim\<lparr>ready_queue := ready1\<rparr>)"
        using True sel by (simp add: assign_core_def Let_def)
      then show ?thesis using base by simp
    next
      case (Inr opt)
      show ?thesis
      proof (cases opt)
        case None
        then have "assign_core i sch sim = (None, sch1, sim\<lparr>ready_queue := ready1\<rparr>)"
          using True sel Inr by (simp add: assign_core_def Let_def)
        then show ?thesis using base by simp
      next
        case (Some r)
        have "r \<in> scheduler_refs sch \<union> set (ready_queue sim)"
          using select_process_in [of "all_processes sim" ?core "ready_queue sim" "current_time sim" sch r]
            sel Inr Some by simp
        then have r: "r < idx" using I(3,5) by blast
        let ?c = "assign_process r (current_time sim) (all_processes sim) ?core"
        let ?sim' = "sim\<lparr>ready_queue := remove1 r ready1,
                        cores := (cores sim)[i := ?c],
                        total_context_switches := total_context_switches sim + 1\<rparr>"
        have eq: "assign_core i sch sim = (None, sch1, ?sim')"
          using True sel Inr Some by (simp add: assign_core_def Let_def)
        have c: "cores_ok idx ((cores sim)[i := ?c])"
          using I(4) by (rule cores_ok_update) (simp add: assign_process_current r)
        have rq: "set (remove1 r ready1) \<subseteq> {..<idx}"
          using r1 set_remove1_subset [of r ready1] by blast
        have "engine_inv idx sch1 ?sim'"
          by (rule engine_invI) (simp_all add: I c rq s1)
        then show ?thesis unfolding eq by simp
      qed
    qed
  qed
qed

lemma assign_processes_inv:
  "engine_inv idx sch sim \<Longrightarrow> \<forall>i\<in>set is. i < length (cores sim) \<Longrightarrow>
   engine_inv idx (fst (snd (assign_processes_to_cores is sch sim)))
     (snd (snd (assign_processes_to_cores is sch sim))) \<and>
   length (cores (snd (snd (assign_processes_to_cores is sch sim)))) = length (cores sim) \<and>
   current_time (snd (snd (assign_processes_to_cores is sch sim))) = current_time sim \<and>
   all_processes (snd (snd (assign_processes_to_cores is sch sim))) = all_processes sim"
proof (induction "is" arbitrary: sch sim)
  case Nil
  then show ?case by simp
next
  case (Cons i rest)
  obtain e sch1 sim1 where a: "assign_core i sch sim = (e, sch1, sim1)"
    by (cases "assign_core i sch sim") auto
  have i: "i < length (cores sim)" using Cons.prems(2) by simp
  have step: "engine_inv idx sch1 sim1" "length (cores sim1) = length (cores sim)"
    "current_time sim1 = current_time sim"
    "all_processes sim1 = all_processes sim"
    using assign_core_inv [OF Cons.prems(1) i] a by simp_all
  show ?case
  proof (cases e)
    case (Some err)
    then show ?thesis using a step by simp
  next
    case None
    have "\<forall>j\<in>set rest. j < length (cores sim1)" using Cons.prems(2) step(2) by simp
    then show ?thesis using Cons.IH [OF step(1)] a None step by simp
  qed
qed

paragraph \<open>Execution\<close>

lemma execute_core_inv:
  assumes inv: "engine_inv idx sch sim" and i: "i < length (cores sim)"
  shows "engine_inv idx (fst (snd (execute_core tq i (m, sch, sim))))
           (snd (snd (execute_core tq i (m, sch, sim)))) \<and>
         length (cores (snd (snd (execute_core tq i (m, sch, sim))))) = length (cores sim) \<and>
         current_time (snd (snd (execute_core tq i (m, sch, sim)))) = current_time sim \<and>
         map arrival_time (all_processes (snd (snd (execute_core tq i (m, sch, sim)))))
           = map arrival_time (all_processes sim)"
proof -
  note I = engine_invD [OF inv]
  let ?core = "cores sim ! i"
  let ?st = "all_processes sim"
  let ?now = "current_time sim"
  show ?thesis
  proof (cases "is_idle ?core")
    case True
    then have "execute_core tq i (m, sch, sim) = (m, sch, sim)"
      by (simp add: execute_core_def Let_def)
    then show ?thesis using inv by simp
  next
    case busy: False
    show ?thesis
    proof (cases "current_process ?core")
      case None
      then have "execute_core tq i (m, sch, sim) = (m, sch, sim)"
        by (simp add: execute_core_def Let_def)
      then show ?thesis using inv by simp
    next
      case (Some cur)
      have cur: "cur < idx" using I(4) i Some by (rule cores_ok_nth)
      have curlen: "cur < length ?st" and curarr: "arrival_time (?st ! cur) \<le> ?now"
        using arrived_nth [OF I(2) cur] by simp_all
      obtain pre sch1 where sp: "should_preempt ?st cur (ready_queue sim) ?now sch = (pre, sch1)"
        by (cases "should_preempt ?st cur (ready_queue sim) ?now sch") auto
      have s1: "scheduler_refs sch1 \<subseteq> {..<idx}"
        using should_preempt_refs [of ?st cur "ready_queue sim" ?now sch] sp I(5) by simp
      show ?thesis
      proof (cases pre)
        case True
        obtain core1 where pr: "preempt_current_process ?now ?core = (Some cur, core1)"
          and c1: "current_process core1 = None"
          using preempt_result [OF Some, of ?now]
          by (cases "preempt_current_process ?now ?core") auto
        let ?rq = "if \<not> is_completed (?st ! cur) then ready_queue sim @ [cur] else ready_queue sim"
        let ?sim' = "sim\<lparr>cores := (cores sim)[i := core1], ready_queue := ?rq\<rparr>"
        have eq: "execute_core tq i (m, sch, sim) = (m, sch1, ?sim')"
          using busy Some sp True pr by (simp add: execute_core_def Let_def)
        have c: "cores_ok idx ((cores sim)[i := core1])"
          using I(4) by (rule cores_ok_update) (simp add: c1)
        have rq: "set ?rq \<subseteq> {..<idx}" using I(3) cur by auto
        have "engine_inv idx sch1 ?sim'"
          by (rule engine_invI) (simp_all add: I c rq s1 del: set_append)
        then show ?thesis unfolding eq by simp
      next
        case False
        let ?p = "snd (execute tq ?now (core_id ?core) (?st ! cur))"
        let ?st1 = "?st[cur := ?p]"
        obtain a core1 where ex: "execute_current_process tq ?now ?st ?core = (Some a, ?st1, core1)"
          and c1: "current_process core1 = Some cur \<or> current_process core1 = None"
          and c1': "\<not> is_completed ?p \<longrightarrow> current_process core1 = Some cur"
          using execute_current_result [OF Some, of tq ?now ?st] by blast
        have pold: "process_inv (?st ! cur)" using I(1) curlen by (rule store_ok_nth)
        have pinv: "process_inv ?p" using pold curarr by (rule execute_process_inv)
        have b1: "store_ok ?st1" using I(1) pinv by (rule store_ok_update)
        have b2: "arrived idx ?st1 ?now" using I(2) by (rule arrived_update) simp
        have b4: "cores_ok idx ((cores sim)[i := core1])"
          using I(4) by (rule cores_ok_update) (use c1 cur in auto)
        have b6: "done_ok ?st1 (completed_processes sim)"
          using I(6) by (rule done_ok_update) (simp_all add: execute_keeps_completion execute_keeps_start)
        have nth: "?st1 ! cur = ?p" using curlen by simp
        have arr1: "map arrival_time ?st1 = map arrival_time ?st"
          by (rule arrivals_update) simp
        let ?sim1 = "sim\<lparr>all_processes := ?st1, cores := (cores sim)[i := core1]\<rparr>"
        let ?m = "Some (min_opt m a)"
        show ?thesis
        proof (cases "is_completed ?p")
          case True
          let ?sch' = "on_process_completion ?st1 cur (?now + a) sch1"
          let ?sim' = "?sim1\<lparr>completed_processes := completed_processes ?sim1 @ [cur]\<rparr>"
          have eq: "execute_core tq i (m, sch, sim) = (?m, ?sch', ?sim')"
            using busy Some sp False ex True nth by (simp add: execute_core_def Let_def)
          have "state ?p = TERMINATED" using True by (simp add: is_completed_def)
          then have "completion_time ?p \<noteq> None" "start_time ?p \<noteq> None"
            using pinv unfolding process_inv_def by simp_all
          then have d: "done_ok ?st1 (completed_processes sim @ [cur])"
            using b6 curlen nth by (intro done_ok_append) simp_all
          have s: "scheduler_refs ?sch' \<subseteq> {..<idx}"
            using on_completion_refs [of ?st1 cur "?now + a" sch1] s1 by blast
          have "engine_inv idx ?sch' ?sim'"
            by (rule engine_invI) (simp_all add: I b1 b2 b4 d s del: set_append)
          then show ?thesis unfolding eq using arr1 by simp
        next
          case running: False
          have base: "engine_inv idx sch1 ?sim1"
            by (rule engine_invI) (simp_all add: I b1 b2 b4 b6 s1)
          show ?thesis
          proof (cases "is_preemptive sch1")
            case False
            have eq: "execute_core tq i (m, sch, sim) = (?m, sch1, ?sim1)"
              using busy Some sp \<open>\<not> pre\<close> ex running nth False
              by (simp add: execute_core_def Let_def)
            show ?thesis using base arr1 unfolding eq by simp
          next
            case True
            have cc: "current_process core1 = Some cur" using c1' running by simp
            obtain core2 where pr: "preempt_current_process (?now + a) core1 = (Some cur, core2)"
              and c2: "current_process core2 = None"
              using preempt_result [OF cc, of "?now + a"]
              by (cases "preempt_current_process (?now + a) core1") auto
            let ?sch' = "rotate_if_supported ?st1 cur sch1"
            let ?sim' = "?sim1\<lparr>cores := (cores ?sim1)[i := core2],
                              ready_queue := ready_queue ?sim1 @ [cur]\<rparr>"
            have eq: "execute_core tq i (m, sch, sim) = (?m, ?sch', ?sim')"
              using busy Some sp \<open>\<not> pre\<close> ex running nth True pr
              by (simp add: execute_core_def Let_def)
            have c: "cores_ok idx ((cores sim)[i := core1, i := core2])"
              using b4 by (rule cores_ok_update) (simp add: c2)
            have rq: "set (ready_queue sim @ [cur]) \<subseteq> {..<idx}" using I(3) cur by auto
            have s: "scheduler_refs ?sch' \<subseteq> {..<idx}"
              using rotate_refs [of ?st1 cur sch1] s1 by blast
            have "engine_inv idx ?sch' ?sim'"
              by (rule engine_invI) (use b1 b2 b6 c rq s in \<open>simp_all del: set_append list_update_overwrite\<close>)
            then show ?thesis unfolding eq using arr1 by simp
          qed
        qed
      qed
    qed
  qed
qed

lemma execute_fold_inv:
  "engine_inv idx sch sim \<Longrightarrow> \<forall>i\<in>set is. i < length (cores sim) \<Longrightarrow>
   engine_inv idx (fst (snd (fold (execute_core tq) is (m, sch, sim))))
     (snd (snd (fold (execute_core tq) is (m, sch, sim)))) \<and>
   current_time (snd (snd (fold (execute_core tq) is (m, sch, sim)))) = current_time sim \<and>
   map arrival_time (all_processes (snd (snd (fold (execute_core tq) is (m, sch, sim)))))
     = map arrival_time (all_processes sim)"
proof (induction "is" arbitrary: m sch sim)
  case Nil
  then show ?case by simp
next
  case (Cons i rest)
  obtain m1 sch1 sim1 where e: "execute_core tq i (m, sch, sim) = (m1, sch1, sim1)"
    by (cases "execute_core tq i (m, sch, sim)") auto
  have i: "i < length (cores sim)" using Cons.prems(2) by simp
  have step: "engine_inv idx sch1 sim1" "length (cores sim1) = length (cores sim)"
    "current_time sim1 = current_time sim"
    "map arrival_time (all_processes sim1) = map arrival_time (all_processes sim)"
    using execute_core_inv [OF Cons.prems(1) i, of tq m] e by simp_all
  have "\<forall>j\<in>set rest. j < length (cores sim1)" using Cons.prems(2) step(2) by simp
  then show ?case using Cons.IH [OF step(1), of m1] e step by simp
qed

lemma execute_all_inv:
  assumes "engine_inv idx sch sim"
  shows "engine_inv idx (fst (snd (execute_all_cores sch sim)))
           (snd (snd (execute_all_cores sch sim))) \<and>
         current_time (snd (snd (execute_all_cores sch sim))) = current_time sim \<and>
         map arrival_time (all_processes (snd (snd (execute_all_cores sch sim))))
           = map arrival_time (all_processes sim)"
  using execute_fold_inv [OF assms, of "[0..<length (cores sim)]" "get_time_quantum sch" None]
  by (simp add: execute_all_cores_def case_prod_beta)

paragraph \<open>The loop\<close>

lemma engine_inv_later:
  assumes "engine_inv idx sch sim" and "current_time sim \<le> t"
  shows "engine_inv idx sch (sim\<lparr>current_time := t\<rparr>)"
proof -
  note I = engine_invD [OF assms(1)]
  have "arrived idx (all_processes sim) t" using I(2) assms(2) by (rule arrived_later)
  then show ?thesis by (intro engine_invI) (simp_all add: I)
qed

lemma simulation_loop_inv:
  "engine_inv idx sch sim \<Longrightarrow>
   simulation_loop fuel mt idx sch sim = Some (e, sch', sim') \<Longrightarrow>
   \<exists>idx'. engine_inv idx' sch' sim'"
proof (induction fuel arbitrary: idx sch sim)
  case 0
  then show ?case by simp
next
  case (Suc fuel)
  show ?case
  proof (cases "(case mt of None \<Rightarrow> False | Some m \<Rightarrow> current_time sim \<ge> m)
      \<or> length (completed_processes sim) \<ge> length (all_processes sim)")
    case True
    then have "simulation_loop (Suc fuel) mt idx sch sim = Some (None, sch, sim)" by auto
    then show ?thesis using Suc.prems by auto
  next
    case False
    obtain idx1 sch1 sim1 where ad: "admit_arrivals idx sch sim = (idx1, sch1, sim1)"
      by (cases "admit_arrivals idx sch sim") auto
    have A: "engine_inv idx1 sch1 sim1" "current_time sim1 = current_time sim"
      "cores sim1 = cores sim"
      "idx1 < length (all_processes sim1) \<longrightarrow> current_time sim < arrival_time (all_processes sim1 ! idx1)"
      using admit_inv [OF Suc.prems(1)] ad by simp_all
    obtain r sch2 sim2 where
      asg: "assign_processes_to_cores [0..<length (cores sim1)] sch1 sim1 = (r, sch2, sim2)"
      by (cases "assign_processes_to_cores [0..<length (cores sim1)] sch1 sim1") auto
    have B: "engine_inv idx1 sch2 sim2" "current_time sim2 = current_time sim1"
      "all_processes sim2 = all_processes sim1"
      using assign_processes_inv [OF A(1), of "[0..<length (cores sim1)]"] asg by simp_all
    show ?thesis
    proof (cases r)
      case (Some err)
      have "simulation_loop (Suc fuel) mt idx sch sim = Some (Some err, sch2, sim2)"
        using False ad asg Some by (simp split: option.splits)
      then show ?thesis using Suc.prems(2) B(1) by auto
    next
      case None
      obtain ms sch3 sim3 where ex: "execute_all_cores sch2 sim2 = (ms, sch3, sim3)"
        by (cases "execute_all_cores sch2 sim2") auto
      have C: "engine_inv idx1 sch3 sim3" "current_time sim3 = current_time sim2"
        "map arrival_time (all_processes sim3) = map arrival_time (all_processes sim2)"
        using execute_all_inv [OF B(1)] ex by simp_all
      show ?thesis
      proof (cases "ms > 0")
        case True
        let ?sim4 = "sim3\<lparr>current_time := current_time sim3 + ms\<rparr>"
        have "engine_inv idx1 sch3 ?sim4" using C(1) True by (intro engine_inv_later) simp_all
        moreover have "simulation_loop fuel mt idx1 sch3 ?sim4 = Some (e, sch', sim')"
          using Suc.prems(2) False ad asg None ex True by (simp split: option.splits)
        ultimately show ?thesis by (rule Suc.IH)
      next
        case nomin: False
        show ?thesis
        proof (cases "idx1 < length (all_processes sim3)")
          case True
          let ?sim4 = "sim3\<lparr>current_time := arrival_time (all_processes sim3 ! idx1)\<rparr>"
          have len: "length (all_processes sim3) = length (all_processes sim1)"
            using C(3) B(3) by (metis length_map)
          have "arrival_time (all_processes sim3 ! idx1) = map arrival_time (all_processes sim3) ! idx1"
            using True by simp
          also have "\<dots> = map arrival_time (all_processes sim1) ! idx1" using C(3) B(3) by simp
          also have "\<dots> = arrival_time (all_processes sim1 ! idx1)" using True len by simp
          finally have "current_time sim < arrival_time (all_processes sim3 ! idx1)"
            using A(4) True len by simp
          then have later: "current_time sim3 \<le> arrival_time (all_processes sim3 ! idx1)"
            using A(2) B(2) C(2) by simp
          have "engine_inv idx1 sch3 ?sim4" using C(1) later by (rule engine_inv_later)
          moreover have "simulation_loop fuel mt idx1 sch3 ?sim4 = Some (e, sch', sim')"
            using Suc.prems(2) False ad asg None ex nomin True by (simp split: option.splits)
          ultimately show ?thesis by (rule Suc.IH)
        next
          case False
          have "simulation_loop (Suc fuel) mt idx sch sim = Some (None, sch3, sim3)"
            using \<open>\<not> ((case mt of None \<Rightarrow> False | Some m \<Rightarrow> current_time sim \<ge> m)
              \<or> length (completed_processes sim) \<ge> length (all_processes sim))\<close>
              ad asg None ex nomin False by (simp split: option.splits)
          then show ?thesis using Suc.prems(2) C(1) by auto
        qed
      qed
    qed
  qed
qed

subsection \<open>Timing of completed processes\<close>

text \<open>A run that returns metrics leaves the simulator in a state satisfying the invariant.\<close>

lemma run_simulation_inv:
  assumes "run_simulation fuel max_time sim = Some (Inr m, sim')"
  shows "store_ok (all_processes sim') \<and> done_ok (all_processes sim') (completed_processes sim')"
proof -
  from assms obtain sch0 where S: "scheduler sim = Some sch0"
    by (cases "scheduler sim") (simp_all add: run_simulation_def)
  from assms S have A: "all_processes sim \<noteq> []"
    by (auto simp add: run_simulation_def)
  from assms S A obtain sch1 sim3 where
    L: "simulation_loop fuel max_time 0 (reset_scheduler sch0) (prepare_simulation sim)
          = Some (None, sch1, sim3)"
    and E: "sim' = sim3\<lparr>scheduler := Some sch1, metrics := Some m\<rparr>"
    by (auto simp add: run_simulation_def Let_def split: option.splits)
  from simulation_loop_inv [OF prepare_inv L] obtain idx where "engine_inv idx sch1 sim3" ..
  then have "store_ok (all_processes sim3)" "done_ok (all_processes sim3) (completed_processes sim3)"
    by (rule engine_invD)+
  then show ?thesis by (simp add: E)
qed

text \<open>
  The timing identities hold on every run. For every process that is completed when
  \<open>run_simulation\<close> returns its metrics, be it listed in \<open>completed_processes\<close> or in the
  state \<open>TERMINATED\<close>: its completion and start times are set,
  \<open>turnaround_time = completion_time - arrival_time\<close>,
  \<open>waiting_time = turnaround_time - burst_time\<close>, and
  \<open>response_time = start_time - arrival_time\<close> is non-negative, the process having first been
  executed no earlier than its arrival.
\<close>

lemma completed_timing:
  assumes "run_simulation fuel max_time sim = Some (Inr m, sim')"
    and "r \<in> set (completed_processes sim') \<or>
         r < length (all_processes sim') \<and> is_completed (all_processes sim' ! r)"
  shows "r < length (all_processes sim') \<and>
         (\<exists>c s. completion_time (all_processes sim' ! r) = Some c \<and>
                start_time (all_processes sim' ! r) = Some s \<and>
                turnaround_time (all_processes sim' ! r) = c - arrival_time (all_processes sim' ! r) \<and>
                waiting_time (all_processes sim' ! r)
                  = turnaround_time (all_processes sim' ! r) - burst_time (all_processes sim' ! r) \<and>
                response_time (all_processes sim' ! r) = s - arrival_time (all_processes sim' ! r) \<and>
                arrival_time (all_processes sim' ! r) \<le> s \<and>
                0 \<le> response_time (all_processes sim' ! r))"
proof -
  let ?p = "all_processes sim' ! r"
  have inv: "store_ok (all_processes sim')" "done_ok (all_processes sim') (completed_processes sim')"
    using run_simulation_inv [OF assms(1)] by simp_all
  have len: "r < length (all_processes sim')"
    using assms(2) inv(2) unfolding done_ok_def by blast
  have P: "process_inv ?p" using inv(1) len by (rule store_ok_nth)
  have "completion_time ?p \<noteq> None \<and> start_time ?p \<noteq> None"
    using assms(2) inv(2) P unfolding done_ok_def process_inv_def is_completed_def by blast
  then obtain c s where cs: "completion_time ?p = Some c" "start_time ?p = Some s" by auto
  from P cs have "turnaround_time ?p = c - arrival_time ?p"
    "waiting_time ?p = turnaround_time ?p - burst_time ?p"
    "response_time ?p = s - arrival_time ?p" "arrival_time ?p \<le> s"
    unfolding process_inv_def by simp_all
  with cs len show ?thesis by simp
qed

lemma srtf_two_cores_loop:
  "(case simulation_loop 3 None 0 (reset_scheduler (Plain (SJFScheduler True)))
           (prepare_simulation srtf_two_cores) of
      Some (None, sch, sim) \<Rightarrow>
        completed_processes sim = [1, 0] \<and> length (all_processes sim) = 2 \<and>
        arrival_time (all_processes sim ! 0) = 0 \<and> burst_time (all_processes sim ! 0) = 2 \<and>
        start_time (all_processes sim ! 0) = Some 0 \<and>
        completion_time (all_processes sim ! 0) = Some (3 / 2) \<and>
        turnaround_time (all_processes sim ! 0) = 3 / 2 \<and>
        waiting_time (all_processes sim ! 0) = - (1 / 2) \<and>
        response_time (all_processes sim ! 0) = 0
    | _ \<Rightarrow> False)"
  by code_simp

text \<open>The identities on the run of the two-core scenario.\<close>

lemma completed_timing_two_cores:
  "\<exists>m s. run_simulation 3 None srtf_two_cores = Some (Inr m, s) \<and>
     0 \<in> set (completed_processes s) \<and> 0 < length (all_processes s) \<and>
     (\<exists>c t. completion_time (all_processes s ! 0) = Some c \<and>
            start_time (all_processes s ! 0) = Some t \<and>
            turnaround_time (all_processes s ! 0) = c - arrival_time (all_processes s ! 0) \<and>
            waiting_time (all_processes s ! 0)
              = turnaround_time (all_processes s ! 0) - burst_time (all_processes s ! 0) \<and>
            response_time (all_processes s ! 0) = t - arrival_time (all_processes s ! 0) \<and>
            arrival_time (all_processes s ! 0) \<le> t \<and>
            0 \<le> response_time (all_processes s ! 0))"
proof -
  have S: "scheduler srtf_two_cores = Some (Plain (SJFScheduler True))"
    by (simp add: srtf_two_cores_def add_process_def set_scheduler_def)
  have A: "all_processes srtf_two_cores \<noteq> []"
    by (simp add: srtf_two_cores_def add_process_def)
  from srtf_two_cores_loop obtain sch sim3 where
    L: "simulation_loop 3 None 0 (reset_scheduler (Plain (SJFScheduler True)))
          (prepare_simulation srtf_two_cores) = Some (None, sch, sim3)"
    and C: "completed_processes sim3 = [1, 0]"
    by (auto split: option.splits prod.splits)
  define m where "m = calculate_metrics (all_processes sim3) (cores sim3)
      (current_time sim3) (total_context_switches sim3)"
  define s where "s = sim3\<lparr>scheduler := Some sch, metrics := Some m\<rparr>"
  have R: "run_simulation 3 None srtf_two_cores = Some (Inr m, s)"
    using L by (simp add: run_simulation_def S A Let_def m_def s_def)
  have M: "0 \<in> set (completed_processes s)" using C by (simp add: s_def)
  then have "0 \<in> set (completed_processes s) \<or>
      0 < length (all_processes s) \<and> is_completed (all_processes s ! 0)" by simp
  from completed_timing [OF R this] R M show ?thesis by blast
qed

subsection \<open>Waiting times on a single core\<close>

text \<open>
  With one core the clock advances by the slice that was executed, so the executed time of
  a process never exceeds the time since its arrival.
\<close>

lemma work_ok_later: "work_ok now p \<Longrightarrow> now \<le> t \<Longrightarrow> work_ok t p"
  unfolding work_ok_def by (auto simp add: max_def split: if_splits)

lemma work_ok_state [simp]: "work_ok now (p\<lparr>state := s\<rparr>) = work_ok now p"
  by (simp add: work_ok_def)

lemma execute_work_ok:
  assumes "work_ok now p" and "arrival_time p \<le> now"
    and "now + max 0 (fst (execute ts now c p)) \<le> t"
  shows "work_ok t (snd (execute ts now c p))"
proof -
  let ?q = "snd (execute ts now c p)"
  let ?a = "min_slice ts (remaining_time p)"
  have a: "fst (execute ts now c p) = ?a" by (rule execute_fst)
  have r: "remaining_time ?q = remaining_time p - ?a" by (rule execute_remaining)
  have b: "burst_time ?q = burst_time p" "arrival_time ?q = arrival_time p"
    by (simp_all add: execute_def execute_track_def execute_start_def execute_finish_def Let_def)
  have old: "burst_time p - remaining_time p \<le> now - arrival_time p"
    using assms(1,2) unfolding work_ok_def by (simp add: max_def split: if_splits)
  have t: "now + ?a \<le> t" "now \<le> t" using assms(3) a by (simp_all add: max_def split: if_splits)
  have w1: "burst_time ?q - remaining_time ?q \<le> max 0 (t - arrival_time ?q)"
    using old t unfolding r b by (simp add: max_def)
  have w2: "0 \<le> waiting_time ?q" if "completion_time ?q \<noteq> None"
  proof (cases "remaining_time p - ?a \<le> 0")
    case True
    then have "waiting_time ?q = (now + ?a - arrival_time p) - burst_time p"
      by (simp add: execute_def execute_track_def execute_start_def execute_finish_def Let_def)
    then show ?thesis using old True by simp
  next
    case False
    then have "waiting_time ?q = waiting_time p" "completion_time ?q = completion_time p"
      by (simp_all add: execute_def execute_track_def execute_start_def execute_finish_def Let_def)
    then show ?thesis using that assms(1) unfolding work_ok_def by simp
  qed
  show ?thesis unfolding work_ok_def using w1 w2 by blast
qed

lemma work_store_update:
  "work_store now st \<Longrightarrow> work_ok now p \<Longrightarrow> work_store now (st[r := p])"
  unfolding work_store_def using set_update_subset_insert [of st r p] by auto

lemma work_store_later: "work_store now st \<Longrightarrow> now \<le> t \<Longrightarrow> work_store t st"
  unfolding work_store_def using work_ok_later by blast

lemma work_store_nth: "work_store now st \<Longrightarrow> r < length st \<Longrightarrow> work_ok now (st ! r)"
  unfolding work_store_def by simp

lemma prepare_work:
  "work_store (current_time (prepare_simulation sim)) (all_processes (prepare_simulation sim))"
  by (auto simp add: work_store_def work_ok_def prepare_simulation_def reset_simulation_def
      reset_process_def Let_def)

lemma prepare_cores: "length (cores (prepare_simulation sim)) = length (cores sim)"
  by (simp add: prepare_simulation_def reset_simulation_def Let_def)

lemma admit_work:
  "work_store (current_time sim) (all_processes sim) \<Longrightarrow>
   work_store (current_time sim) (all_processes (snd (snd (admit_arrivals idx sch sim))))"
proof (induction idx sch sim rule: admit_arrivals.induct)
  case (1 idx sch sim)
  let ?st = "(all_processes sim)[idx := (all_processes sim ! idx)\<lparr>state := READY\<rparr>]"
  let ?sch1 = "on_process_arrival ?st idx (current_time sim) sch"
  let ?sim1 = "sim\<lparr>all_processes := ?st, ready_queue := ready_queue sim @ [idx]\<rparr>"
  show ?case
  proof (cases "idx < length (all_processes sim)
      \<and> arrival_time (all_processes sim ! idx) \<le> current_time sim")
    case True
    have eq: "admit_arrivals idx sch sim = admit_arrivals (idx + 1) ?sch1 ?sim1"
      by (subst admit_arrivals.simps, subst if_P [OF True], simp only: Let_def)
    have "work_ok (current_time sim) (all_processes sim ! idx)"
      using "1.prems" True by (simp add: work_store_nth)
    then have "work_store (current_time sim) ?st"
      using "1.prems" by (intro work_store_update) simp_all
    then show ?thesis
      using "1.IH" [OF True refl] unfolding eq by simp
  next
    case False
    have eq: "admit_arrivals idx sch sim = (idx, sch, sim)"
      by (subst admit_arrivals.simps, subst if_not_P [OF False], rule refl)
    show ?thesis using "1.prems" unfolding eq by simp
  qed
qed

lemma execute_core_store:
  "(all_processes (snd (snd (execute_core tq i (m, sch, sim)))) = all_processes sim \<and>
    fst (execute_core tq i (m, sch, sim)) = m) \<or>
   (\<exists>cur. current_process (cores sim ! i) = Some cur \<and>
      all_processes (snd (snd (execute_core tq i (m, sch, sim))))
        = (all_processes sim)[cur := snd (execute tq (current_time sim) (core_id (cores sim ! i))
                                           (all_processes sim ! cur))] \<and>
      fst (execute_core tq i (m, sch, sim))
        = Some (min_opt m (fst (execute tq (current_time sim) (core_id (cores sim ! i))
                                  (all_processes sim ! cur)))))"
proof -
  let ?core = "cores sim ! i"
  let ?st = "all_processes sim"
  let ?now = "current_time sim"
  show ?thesis
  proof (cases "is_idle ?core")
    case True
    then have "execute_core tq i (m, sch, sim) = (m, sch, sim)"
      by (simp add: execute_core_def Let_def)
    then show ?thesis by simp
  next
    case busy: False
    show ?thesis
    proof (cases "current_process ?core")
      case None
      then have "execute_core tq i (m, sch, sim) = (m, sch, sim)"
        by (simp add: execute_core_def Let_def)
      then show ?thesis by simp
    next
      case (Some cur)
      obtain pre sch1 where sp: "should_preempt ?st cur (ready_queue sim) ?now sch = (pre, sch1)"
        by (cases "should_preempt ?st cur (ready_queue sim) ?now sch") auto
      show ?thesis
      proof (cases pre)
        case True
        then have "all_processes (snd (snd (execute_core tq i (m, sch, sim)))) = ?st \<and>
            fst (execute_core tq i (m, sch, sim)) = m"
          using busy Some sp by (simp add: execute_core_def Let_def split: prod.splits)
        then show ?thesis by simp
      next
        case False
        let ?E = "execute tq ?now (core_id ?core) (?st ! cur)"
        obtain core1 where
          ex: "execute_current_process tq ?now ?st ?core = (Some (fst ?E), ?st[cur := snd ?E], core1)"
          using Some by (simp add: execute_current_process_def Let_def case_prod_beta)
        have "all_processes (snd (snd (execute_core tq i (m, sch, sim)))) = ?st[cur := snd ?E] \<and>
            fst (execute_core tq i (m, sch, sim)) = Some (min_opt m (fst ?E))"
          using busy Some sp False ex
          by (simp add: execute_core_def Let_def split: prod.splits option.splits)
        then show ?thesis using Some by simp
      qed
    qed
  qed
qed

lemma execute_one_core_work:
  assumes inv: "engine_inv idx sch sim" and one: "length (cores sim) = 1"
    and w: "work_store (current_time sim) (all_processes sim)"
  shows "work_store (current_time sim + max 0 (fst (execute_all_cores sch sim)))
           (all_processes (snd (snd (execute_all_cores sch sim)))) \<and>
         length (cores (snd (snd (execute_all_cores sch sim)))) = 1"
proof -
  note I = engine_invD [OF inv]
  let ?tq = "get_time_quantum sch"
  let ?out = "execute_core ?tq 0 (None, sch, sim)"
  let ?now = "current_time sim"
  let ?st = "all_processes sim"
  have all: "execute_all_cores sch sim
      = ((case fst ?out of None \<Rightarrow> 0 | Some m \<Rightarrow> m), fst (snd ?out), snd (snd ?out))"
    using one by (simp add: execute_all_cores_def case_prod_beta)
  have len: "length (cores (snd (snd ?out))) = 1"
    using execute_core_inv [OF inv, of 0 ?tq None] one by simp
  have "work_store (?now + max 0 (case fst ?out of None \<Rightarrow> 0 | Some m \<Rightarrow> m))
      (all_processes (snd (snd ?out)))"
    using execute_core_store [of ?tq 0 None sch sim]
  proof (elim disjE exE conjE)
    assume "all_processes (snd (snd ?out)) = ?st" "fst ?out = None"
    then show ?thesis using w by simp
  next
    fix cur
    let ?E = "execute ?tq ?now (core_id (cores sim ! 0)) (?st ! cur)"
    assume run: "current_process (cores sim ! 0) = Some cur"
      "all_processes (snd (snd ?out)) = ?st[cur := snd ?E]"
      "fst ?out = Some (min_opt None (fst ?E))"
    have cur: "cur < idx" using I(4) _ run(1) by (rule cores_ok_nth) (simp add: one)
    have curlen: "cur < length ?st" and curarr: "arrival_time (?st ! cur) \<le> ?now"
      using arrived_nth [OF I(2) cur] by simp_all
    have m: "(case fst ?out of None \<Rightarrow> 0 | Some m \<Rightarrow> m) = fst ?E"
      using run(3) by (simp add: min_opt_def)
    have "work_ok ?now (?st ! cur)" using w curlen by (rule work_store_nth)
    then have "work_ok (?now + max 0 (fst ?E)) (snd ?E)"
      using curarr by (rule execute_work_ok) simp
    moreover have "work_store (?now + max 0 (fst ?E)) ?st"
      using w by (rule work_store_later) simp
    ultimately have "work_store (?now + max 0 (fst ?E)) (?st[cur := snd ?E])"
      by (intro work_store_update)
    then show ?thesis unfolding m run(2) .
  qed
  then show ?thesis using len unfolding all by simp
qed

lemma simulation_loop_work:
  "engine_inv idx sch sim \<Longrightarrow> length (cores sim) = 1 \<Longrightarrow>
   work_store (current_time sim) (all_processes sim) \<Longrightarrow>
   simulation_loop fuel mt idx sch sim = Some (e, sch', sim') \<Longrightarrow>
   work_store (current_time sim') (all_processes sim')"
proof (induction fuel arbitrary: idx sch sim)
  case 0
  then show ?case by simp
next
  case (Suc fuel)
  note inv = Suc.prems(1) and one = Suc.prems(2) and w = Suc.prems(3) and run = Suc.prems(4)
  show ?case
  proof (cases "(case mt of None \<Rightarrow> False | Some m \<Rightarrow> current_time sim \<ge> m)
      \<or> length (completed_processes sim) \<ge> length (all_processes sim)")
    case True
    then have "simulation_loop (Suc fuel) mt idx sch sim = Some (None, sch, sim)" by auto
    then show ?thesis using run w by auto
  next
    case False
    obtain idx1 sch1 sim1 where ad: "admit_arrivals idx sch sim = (idx1, sch1, sim1)"
      by (cases "admit_arrivals idx sch sim") auto
    have A: "engine_inv idx1 sch1 sim1" "current_time sim1 = current_time sim"
      "cores sim1 = cores sim"
      "idx1 < length (all_processes sim1) \<longrightarrow> current_time sim < arrival_time (all_processes sim1 ! idx1)"
      using admit_inv [OF inv] ad by simp_all
    have Aw: "work_store (current_time sim) (all_processes sim1)"
      using admit_work [OF w, of idx sch] ad by simp
    obtain r sch2 sim2 where
      asg: "assign_processes_to_cores [0..<length (cores sim1)] sch1 sim1 = (r, sch2, sim2)"
      by (cases "assign_processes_to_cores [0..<length (cores sim1)] sch1 sim1") auto
    have B: "engine_inv idx1 sch2 sim2" "current_time sim2 = current_time sim1"
      "all_processes sim2 = all_processes sim1" "length (cores sim2) = length (cores sim1)"
      using assign_processes_inv [OF A(1), of "[0..<length (cores sim1)]"] asg by simp_all
    have Bw: "work_store (current_time sim2) (all_processes sim2)"
      using Aw A(2) B(2,3) by simp
    have Bone: "length (cores sim2) = 1" using B(4) A(3) one by simp
    show ?thesis
    proof (cases r)
      case (Some err)
      have "simulation_loop (Suc fuel) mt idx sch sim = Some (Some err, sch2, sim2)"
        using False ad asg Some by (simp split: option.splits)
      then show ?thesis using run Bw by auto
    next
      case None
      obtain ms sch3 sim3 where ex: "execute_all_cores sch2 sim2 = (ms, sch3, sim3)"
        by (cases "execute_all_cores sch2 sim2") auto
      have C: "engine_inv idx1 sch3 sim3" "current_time sim3 = current_time sim2"
        "map arrival_time (all_processes sim3) = map arrival_time (all_processes sim2)"
        using execute_all_inv [OF B(1)] ex by simp_all
      have Cw: "work_store (current_time sim3 + max 0 ms) (all_processes sim3)"
        and Cone: "length (cores sim3) = 1"
        using execute_one_core_work [OF B(1) Bone Bw] ex C(2) by simp_all
      show ?thesis
      proof (cases "ms > 0")
        case True
        let ?sim4 = "sim3\<lparr>current_time := current_time sim3 + ms\<rparr>"
        have "engine_inv idx1 sch3 ?sim4" using C(1) True by (intro engine_inv_later) simp_all
        moreover have "length (cores ?sim4) = 1" using Cone by simp
        moreover have "work_store (current_time ?sim4) (all_processes ?sim4)"
          using Cw True by (simp add: max_def)
        moreover have "simulation_loop fuel mt idx1 sch3 ?sim4 = Some (e, sch', sim')"
          using run False ad asg None ex True by (simp split: option.splits)
        ultimately show ?thesis by (rule Suc.IH)
      next
        case nomin: False
        then have "max 0 ms = 0" by simp
        then have Cw0: "work_store (current_time sim3) (all_processes sim3)"
          using Cw by simp
        show ?thesis
        proof (cases "idx1 < length (all_processes sim3)")
          case True
          let ?sim4 = "sim3\<lparr>current_time := arrival_time (all_processes sim3 ! idx1)\<rparr>"
          have len: "length (all_processes sim3) = length (all_processes sim1)"
            using C(3) B(3) by (metis length_map)
          have "arrival_time (all_processes sim3 ! idx1) = map arrival_time (all_processes sim3) ! idx1"
            using True by simp
          also have "\<dots> = map arrival_time (all_processes sim1) ! idx1" using C(3) B(3) by simp
          also have "\<dots> = arrival_time (all_processes sim1 ! idx1)" using True len by simp
          finally have "current_time sim < arrival_time (all_processes sim3 ! idx1)"
            using A(4) True len by simp
          then have later: "current_time sim3 \<le> arrival_time (all_processes sim3 ! idx1)"
            using A(2) B(2) C(2) by simp
          have "engine_inv idx1 sch3 ?sim4" using C(1) later by (rule engine_inv_later)
          moreover have "length (cores ?sim4) = 1" using Cone by simp
          moreover have "work_store (current_time ?sim4) (all_processes ?sim4)"
            using work_store_later [OF Cw0 later] by simp
          moreover have "simulation_loop fuel mt idx1 sch3 ?sim4 = Some (e, sch', sim')"
            using run False ad asg None ex nomin True by (simp split: option.splits)
          ultimately show ?thesis by (rule Suc.IH)
        next
          case False
          have "simulation_loop (Suc fuel) mt idx sch sim = Some (None, sch3, sim3)"
            using \<open>\<not> ((case mt of None \<Rightarrow> False | Some m \<Rightarrow> current_time sim \<ge> m)
              \<or> length (completed_processes sim) \<ge> length (all_processes sim))\<close>
              ad asg None ex nomin False by (simp split: option.splits)
          then show ?thesis using run Cw0 by auto
        qed
      qed
    qed
  qed
qed

text \<open>
  On a single core, under every scheduler, every process that is completed when
  \<open>run_simulation\<close> returns its metrics has a non-negative waiting time.
\<close>

lemma one_core_waiting_time:
  assumes "run_simulation fuel max_time sim = Some (Inr m, sim')"
    and "length (cores sim) = 1"
    and "r \<in> set (completed_processes sim') \<or>
         r < length (all_processes sim') \<and> is_completed (all_processes sim' ! r)"
  shows "0 \<le> waiting_time (all_processes sim' ! r)"
proof -
  from assms(1) obtain sch0 where S: "scheduler sim = Some sch0"
    by (cases "scheduler sim") (simp_all add: run_simulation_def)
  from assms(1) S have A: "all_processes sim \<noteq> []"
    by (auto simp add: run_simulation_def)
  from assms(1) S A obtain sch1 sim3 where
    L: "simulation_loop fuel max_time 0 (reset_scheduler sch0) (prepare_simulation sim)
          = Some (None, sch1, sim3)"
    and E: "sim' = sim3\<lparr>scheduler := Some sch1, metrics := Some m\<rparr>"
    by (auto simp add: run_simulation_def Let_def split: option.splits)
  have "length (cores (prepare_simulation sim)) = 1" using assms(2) by (simp add: prepare_cores)
  from simulation_loop_work [OF prepare_inv this prepare_work L]
  have W: "work_store (current_time sim') (all_processes sim')" by (simp add: E)
  from completed_timing [OF assms(1) assms(3)] obtain c where
    len: "r < length (all_processes sim')" and c: "completion_time (all_processes sim' ! r) = Some c"
    by blast
  from work_store_nth [OF W len] c show ?thesis by (simp add: work_ok_def)
qed

text \<open>
  The two processes of the two-core scenario under preemptive SJF on one core: the long
  process completes at 5/2 and the waiting times are 1/2 and 0.
\<close>

lemma srtf_one_core_loop:
  "(case simulation_loop 5 None 0 (reset_scheduler (Plain (SJFScheduler True)))
           (prepare_simulation srtf_one_core) of
      Some (None, sch, sim) \<Rightarrow>
        completed_processes sim = [1, 0] \<and> length (all_processes sim) = 2 \<and>
        completion_time (all_processes sim ! 0) = Some (5 / 2) \<and>
        waiting_time (all_processes sim ! 0) = 1 / 2 \<and>
        completion_time (all_processes sim ! 1) = Some (1 / 2) \<and>
        waiting_time (all_processes sim ! 1) = 0
    | _ \<Rightarrow> False)"
  by code_simp

subsection \<open>Waiting times on several cores\<close>

text \<open>
  C3 fails on the code: a completed process can have a negative waiting time. In one
  step every core executes its own slice starting at the same current time, and the clock
  then advances by the smallest of these slices only. With preemptive SJF (quantum 1) on
  two cores and two processes arriving at time 0, P0 of burst 2 and P1 of burst 1/2: in
  the first step core 0 runs P1 to completion (slice 1/2) and core 1 runs P0 for its
  quantum 1 and returns it to the ready queue; the clock moves to 1/2. In the second step
  core 0 takes P0 at time 1/2, although its first slice on core 1 lasts until time 1, and
  runs it for 1: P0 completes at time 3/2, with turnaround time 3/2 smaller than its
  burst time 2 and waiting time -1/2. The identities of the claim and its bound on the
  response time hold on every run (\<open>completed_timing\<close>), and on a single core so does
  the bound on the waiting time (\<open>one_core_waiting_time\<close>).
\<close>

theorem srtf_negative_waiting_time:
  "(case run_simulation 3 None srtf_two_cores of
      Some (Inr m, sim) \<Rightarrow>
        completed_processes sim = [1, 0] \<and> length (all_processes sim) = 2 \<and>
        arrival_time (all_processes sim ! 0) = 0 \<and> burst_time (all_processes sim ! 0) = 2 \<and>
        start_time (all_processes sim ! 0) = Some 0 \<and>
        completion_time (all_processes sim ! 0) = Some (3 / 2) \<and>
        turnaround_time (all_processes sim ! 0) = 3 / 2 \<and>
        waiting_time (all_processes sim ! 0) = - (1 / 2) \<and>
        response_time (all_processes sim ! 0) = 0
    | _ \<Rightarrow> False)"
proof -
  have S: "scheduler srtf_two_cores = Some (Plain (SJFScheduler True))"
    by (simp add: srtf_two_cores_def add_process_def set_scheduler_def)
  have A: "all_processes srtf_two_cores \<noteq> []"
    by (simp add: srtf_two_cores_def add_process_def)
  show ?thesis
    using srtf_two_cores_loop
    by (simp add: run_simulation_def S A Let_def split: option.splits prod.splits sum.splits)
qed

end
